theory Spec2Isabelle
  imports Complex_Main "HOL-Library.AList" "HOL-Library.Multiset"
begin

section \<open>Data model (types.ts)\<close>

text \<open>
  JavaScript numbers are modelled as real numbers, and the values \<open>NaN\<close> and
  \<open>Infinity\<close> are written out as separate outcomes where the code can produce them.
  Arithmetic is exact, except where a result of the code depends on the rounding of
  doubles: the tap tempo and the crossfader laws are computed in the arithmetic of binary64
  (\<open>toDouble\<close> below). An optional or nullable property is an \<open>option\<close>; \<open>None\<close> stands
  for \<open>null\<close>, \<open>undefined\<close> and an absent property alike (all three are falsy and
  none of them is \<open>===\<close> to a number or a string).
  Browser objects (File, AudioBuffer, ArrayBuffer) are opaque handles.
\<close>

datatype File = File nat
datatype AudioBuffer = AudioBuffer nat
datatype ArrayBuffer = ArrayBuffer nat

text \<open>
  \<open>interface Song\<close>. The field \<open>id\<close> is called \<open>id_song\<close> (\<open>id\<close> is the identity
  function of HOL). \<open>file\<close> (here \<open>file_song\<close>, as \<open>file\<close> is a keyword) is
  optional because a beat read back from the beat store has no \<open>file\<close> property.
\<close>

record Song =
  id_song :: real
  name :: string
  file_song :: "File option"
  key :: "string option"
  bpm :: "real option"
  genre :: "string option"
  energy :: "real option"

text \<open>\<open>interface Beat extends Song\<close>\<close>

record Beat = Song +
  audioBuffer :: "AudioBuffer option"
  arrayBuffer :: "ArrayBuffer option"

text \<open>The \<open>loop\<close> property of a deck (\<open>end\<close> is a keyword of Isabelle).\<close>

record Loop =
  loop_start :: "real option"
  loop_end :: "real option"
  loop_active :: bool

text \<open>\<open>interface DeckState\<close>; \<open>key\<close> and \<open>bpm\<close> of the deck carry the suffix \<open>_deck\<close>.\<close>

record DeckState =
  song :: "Song option"
  isPlaying :: bool
  gain :: real
  volume :: real
  playbackRate :: real
  currentTime :: real
  duration :: real
  platterAngle :: real
  cuePoints :: "real option list"
  bpm_deck :: "real option"
  loop :: Loop
  waveform :: "real list option"
  key_deck :: "string option"
  zoom :: real
  viewStartRatio :: real
  perceivedLoudness :: "real option"
  lastUpdateTime :: "real option"
  keyLock :: bool
  scratchModeEnabled :: bool
  wasPlayingBeforeScratch :: bool

text \<open>The initial value of \<open>useState<DeckState>\<close> for both decks.\<close>

definition initialDeckState :: DeckState where
  "initialDeckState =
     \<lparr> song = None, isPlaying = False, gain = 50, volume = 0.75, playbackRate = 1,
       currentTime = 0, duration = 0, platterAngle = 0, cuePoints = [], bpm_deck = None,
       loop = \<lparr> loop_start = None, loop_end = None, loop_active = False \<rparr>,
       waveform = None, key_deck = None, zoom = 1, viewStartRatio = 0,
       perceivedLoudness = None, lastUpdateTime = None, keyLock = False,
       scratchModeEnabled = False, wasPlayingBeforeScratch = False \<rparr>"

datatype DeckId = DeckA | DeckB

section \<open>Strings and numbers of the platform\<close>

text \<open>
  A JavaScript string is modelled as a \<open>string\<close> of HOL, whose characters are 8-bit:
  the model covers strings of code units below 256 (Latin-1). The white space of
  \<open>parseInt\<close>, \<open>trim\<close> and the \<open>\s\<close> of a regular expression is, in that range,
  TAB, LF, VT, FF, CR, SPACE and NBSP.
\<close>

definition isWhiteSpace :: "char \<Rightarrow> bool" where
  "isWhiteSpace c =
     (c \<in> set [CHR 0x09, CHR 0x0A, CHR 0x0B, CHR 0x0C, CHR 0x0D, CHR '' '', CHR 0xA0])"

text \<open>The value of a digit in any radix up to 36; 36 for a character that is no digit.\<close>

definition digitVal :: "char \<Rightarrow> nat" where
  "digitVal c =
     (let n = (of_char c :: nat) in
      if 48 \<le> n \<and> n \<le> 57 then n - 48
      else if 97 \<le> n \<and> n \<le> 122 then n - 87
      else if 65 \<le> n \<and> n \<le> 90 then n - 55
      else 36)"

text \<open>
  \<open>parseInt(s)\<close> with no radix: leading white space is skipped, then an optional sign,
  then an optional \<open>0x\<close>/\<open>0X\<close> (radix 16, otherwise 10), then the longest run of digits;
  with no digit the result is \<open>NaN\<close>, here \<open>None\<close>. The result is an unbounded integer
  (the model does not round to a double, which matters above \<open>2^53\<close> only).
\<close>

definition parseInt :: "string \<Rightarrow> int option" where
  "parseInt s =
     (let s1 = dropWhile isWhiteSpace s;
          negative = (take 1 s1 = ''-'');
          s2 = (if take 1 s1 = ''-'' \<or> take 1 s1 = ''+'' then drop 1 s1 else s1);
          hex = (take 2 s2 = ''0x'' \<or> take 2 s2 = ''0X'');
          radix = (if hex then 16 else 10);
          s3 = (if hex then drop 2 s2 else s2);
          ds = takeWhile (\<lambda>c. digitVal c < radix) s3;
          n = foldl (\<lambda>acc c. acc * radix + digitVal c) 0 ds
      in if ds = [] then None else Some (if negative then - int n else int n))"

text \<open>The decimal digits of a natural number, as a template literal prints them.\<close>

function showNat :: "nat \<Rightarrow> string" where
  "showNat n =
     (if n < 10 then [''0123456789'' ! n]
      else showNat (n div 10) @ [''0123456789'' ! (n mod 10)])"
  by pat_completeness auto
termination
  by (relation "measure id") auto

declare showNat.simps [simp del]

text \<open>
  \<open>`${num}`\<close> for a number that is an integer or \<open>NaN\<close> (decimal digits; the exponent
  notation of integers from \<open>10^21\<close> on is not modelled).
\<close>

definition numberToString :: "int option \<Rightarrow> string" where
  "numberToString num =
     (case num of
        None \<Rightarrow> ''NaN''
      | Some n \<Rightarrow> if n < 0 then CHR ''-'' # showNat (nat (- n)) else showNat (nat n))"

text \<open>\<open>Math.round\<close>: the nearest integer, a tie going up.\<close>

definition Math_round :: "real \<Rightarrow> real" where
  "Math_round x = of_int \<lfloor>x + 1 / 2\<rfloor>"

subsection \<open>The arithmetic of doubles\<close>

text \<open>
  A JavaScript number is an IEEE 754 binary64 value, and \<open>+\<close>, \<open>-\<close>, \<open>*\<close> and
  \<open>/\<close> return the double nearest to the exact result, a tie going to the even
  significand. \<open>toDouble\<close> is that rounding: the exponent of \<open>x\<close> is
  \<open>\<lfloor>log\<^sub>2 \<bar>x\<bar>\<rfloor>\<close>, held at \<open>-1022\<close> for the subnormal numbers, the doubles of that
  exponent are the integer multiples of \<open>2\<close> to the exponent less 52, and \<open>x\<close> goes to
  the nearest multiple. Magnitudes from \<open>2^1024\<close> on, which the code turns into
  \<open>Infinity\<close>, are outside the model; the clock readings, tempos and gains of the
  functions below are far from them.
\<close>

definition roundTiesToEven :: "real \<Rightarrow> int" where
  "roundTiesToEven x =
     (let n = \<lfloor>x\<rfloor>; r = x - of_int n
      in if r < 1 / 2 then n else if 1 / 2 < r then n + 1 else if even n then n else n + 1)"

definition exponent64 :: "real \<Rightarrow> int" where
  "exponent64 x = max \<lfloor>log 2 \<bar>x\<bar>\<rfloor> (- 1022)"

definition toDouble :: "real \<Rightarrow> real" where
  "toDouble x =
     (if x = 0 then 0
      else let ulp = 2 powr of_int (exponent64 x - 52)
           in of_int (roundTiesToEven (x / ulp)) * ulp)"

text \<open>The four operators on doubles.\<close>

definition add64 :: "real \<Rightarrow> real \<Rightarrow> real" where
  "add64 a b = toDouble (a + b)"

definition sub64 :: "real \<Rightarrow> real \<Rightarrow> real" where
  "sub64 a b = toDouble (a - b)"

definition mul64 :: "real \<Rightarrow> real \<Rightarrow> real" where
  "mul64 a b = toDouble (a * b)"

definition div64 :: "real \<Rightarrow> real \<Rightarrow> real" where
  "div64 a b = toDouble (a / b)"

text \<open>
  \<open>Math.cos\<close>, \<open>Math.sin\<close> and \<open>Math.pow\<close>. The language leaves their precision to
  the implementation; the model takes the double nearest to the exact value, which is what
  the engines return at the arguments evaluated below (\<open>Math.cos(Math.PI / 2)\<close> is
  \<open>6.123233995736766e-17\<close> and \<open>Math.sin(Math.PI / 2)\<close> is \<open>1\<close>). The exponent of
  \<open>Math.pow\<close> is a natural number, as at its one call, \<open>Math.pow(p, 3)\<close>.
\<close>

definition Math_cos :: "real \<Rightarrow> real" where
  "Math_cos x = toDouble (cos x)"

definition Math_sin :: "real \<Rightarrow> real" where
  "Math_sin x = toDouble (sin x)"

definition Math_pow :: "real \<Rightarrow> nat \<Rightarrow> real" where
  "Math_pow x n = toDouble (x ^ n)"

section \<open>Harmonic compatibility (getCompatibleKeys)\<close>

definition CAMELOT_KEYS :: "string list" where
  "CAMELOT_KEYS =
     [''1A'', ''1B'', ''2A'', ''2B'', ''3A'', ''3B'', ''4A'', ''4B'',
      ''5A'', ''5B'', ''6A'', ''6B'', ''7A'', ''7B'', ''8A'', ''8B'',
      ''9A'', ''9B'', ''10A'', ''10B'', ''11A'', ''11B'', ''12A'', ''12B'']"

text \<open>
  \<open>key.slice(0, -1)\<close> is \<open>butlast\<close>, \<open>key.slice(-1)\<close> the string of the last character.
  Arithmetic on \<open>NaN\<close> gives \<open>NaN\<close>, and \<open>NaN === 12\<close> is false.
\<close>

definition getCompatibleKeys :: "string \<Rightarrow> string list" where
  "getCompatibleKeys k =
     (if k = [] then []
      else
        let num = parseInt (butlast k);
            letter = [last k];
            nextNum = (case num of None \<Rightarrow> None | Some n \<Rightarrow> Some (if n = 12 then 1 else n + 1));
            prevNum = (case num of None \<Rightarrow> None | Some n \<Rightarrow> Some (if n = 1 then 12 else n - 1))
        in [numberToString num @ (if letter = ''A'' then ''B'' else ''A''),
            numberToString nextNum @ letter,
            numberToString prevNum @ letter])"

section \<open>Tap tempo (handleMetronomeTap)\<close>

text \<open>
  The state the handler touches: the ref \<open>tapTempoTimestamps\<close> and the state variable
  \<open>metronomeBpm\<close>. \<open>now\<close> is the value of \<open>performance.now()\<close>, in milliseconds.
  The differences, the sum and the quotients are those of doubles.
\<close>

record Metronome =
  tapTempoTimestamps :: "real list"
  metronomeBpm :: real

definition initialMetronome :: Metronome where
  "initialMetronome = \<lparr> tapTempoTimestamps = [], metronomeBpm = 120 \<rparr>"

text \<open>The loop \<open>for (i = 1; i < length; i++) intervals.push(ts[i] - ts[i - 1])\<close>.\<close>

definition tapIntervals :: "real list \<Rightarrow> real list" where
  "tapIntervals ts = map (\<lambda>i. sub64 (ts ! i) (ts ! (i - 1))) [1..<length ts]"

text \<open>
  \<open>lastTap\<close> is \<open>undefined\<close> for an empty window; \<open>lastTap && \<dots>\<close> is false for
  \<open>undefined\<close> and for the number 0. \<open>shift()\<close> drops the oldest stamp.
  \<open>reduce((a, b) => a + b, 0)\<close> adds from the left, starting at 0.
\<close>

definition handleMetronomeTap :: "real \<Rightarrow> Metronome \<Rightarrow> Metronome" where
  "handleMetronomeTap now m =
     (let stamps = tapTempoTimestamps m;
          lastTap = (if stamps = [] then None else Some (last stamps));
          stamps1 = (case lastTap of
                       None \<Rightarrow> stamps
                     | Some l \<Rightarrow> if l \<noteq> 0 \<and> sub64 now l > 2000 then [] else stamps);
          stamps2 = stamps1 @ [now];
          stamps3 = (if length stamps2 > 5 then tl stamps2 else stamps2)
      in if length stamps3 > 1
         then (let intervals = tapIntervals stamps3;
                   averageInterval = div64 (foldl add64 0 intervals) (real (length intervals))
               in if averageInterval > 0
                  then \<lparr> tapTempoTimestamps = stamps3,
                         metronomeBpm = max 40 (min 240 (Math_round (div64 60000 averageInterval))) \<rparr>
                  else \<lparr> tapTempoTimestamps = stamps3, metronomeBpm = metronomeBpm m \<rparr>)
         else \<lparr> tapTempoTimestamps = stamps3, metronomeBpm = metronomeBpm m \<rparr>)"

text \<open>A run of taps at the given clock values, oldest first.\<close>

definition tapAt :: "real list \<Rightarrow> Metronome \<Rightarrow> Metronome" where
  "tapAt nows m = foldl (\<lambda>s t. handleMetronomeTap t s) m nows"

subsection \<open>Tap tempo in the words of the specification\<close>

text \<open>
  The rolling window: a tap more than 2000 ms after the previous one starts the window
  again; otherwise the window is the last five of the stamps so far and the new one.
\<close>

definition rollingWindow :: "real \<Rightarrow> real list \<Rightarrow> real list" where
  "rollingWindow now ts =
     (if ts \<noteq> [] \<and> last ts \<noteq> 0 \<and> 2000 < sub64 now (last ts) then [now]
      else drop (length (ts @ [now]) - 5) (ts @ [now]))"

text \<open>
  The mean inter-tap interval: the differences of neighbouring stamps, added up and divided
  by their number.
\<close>

definition meanInterval :: "real list \<Rightarrow> real" where
  "meanInterval ts =
     div64 (foldl add64 0 (map (\<lambda>(a, b). sub64 b a) (zip ts (tl ts)))) (real (length ts - 1))"

text \<open>
  The tempo after a tap: with two or more stamps in the window and a positive mean
  interval, 60000 over the mean, rounded and clamped to [40, 240]; otherwise the tempo as
  it was.
\<close>

definition tappedBpm :: "real list \<Rightarrow> real \<Rightarrow> real" where
  "tappedBpm window tempo =
     (if 2 \<le> length window \<and> 0 < meanInterval window
      then max 40 (min 240 (Math_round (div64 60000 (meanInterval window))))
      else tempo)"

section \<open>MIDI binding layer\<close>

text \<open>
  \<open>MidiMapping\<close> is a JavaScript object from control identifiers to message
  identifiers: an association list in property order, with distinct keys. Assigning to a
  key that exists keeps its place, assigning to a new key appends it.
\<close>

type_synonym MappableControl = string
type_synonym MidiMessageId = string
type_synonym MidiMapping = "(MappableControl \<times> MidiMessageId) list"

text \<open>
  The identifier of a physical message, from the status byte and the two data bytes:
  \<open>command & 0x0f\<close> is \<open>command mod 16\<close> and \<open>command & 0xf0\<close> is the high nibble
  times 16. A note-on with velocity 0 counts as a note-off; other messages have no
  identifier.
\<close>

definition midiMessageId :: "nat \<Rightarrow> nat \<Rightarrow> nat \<Rightarrow> MidiMessageId option" where
  "midiMessageId command data1 data2 =
     (let channel = command mod 16 + 1;
          status = (command div 16) mod 16 * 16
      in if status = 0x90 \<or> status = 0x80
         then Some ((if status = 0x90 \<and> data2 > 0 then ''note_on'' else ''note_off'')
                     @ ''_'' @ showNat channel @ ''_'' @ showNat data1)
         else if status = 0xB0
         then Some (''cc_'' @ showNat channel @ ''_'' @ showNat data1)
         else None)"

text \<open>
  The updater of the learn branch: every key whose value is the message is deleted, then
  the control being learnt is bound to the message.
\<close>

definition learnMapping :: "MappableControl \<Rightarrow> MidiMessageId \<Rightarrow> MidiMapping \<Rightarrow> MidiMapping" where
  "learnMapping isMidiLearning messageId prev =
     AList.update isMidiLearning messageId (filter (\<lambda>(k, v). v \<noteq> messageId) prev)"

text \<open>
  The reverse index the persistence effect builds: a fresh object, filled in the property
  order of the mapping; an empty message identifier is falsy and is skipped.
\<close>

definition reverseOf :: "MidiMapping \<Rightarrow> (MidiMessageId \<rightharpoonup> MappableControl)" where
  "reverseOf midiMapping =
     foldl (\<lambda>newReverseMapping (control, messageId).
              if messageId \<noteq> [] then newReverseMapping(messageId \<mapsto> control)
              else newReverseMapping)
       Map.empty midiMapping"

record MidiState =
  midiMapping :: MidiMapping
  reverseMidiMapping :: "MidiMessageId \<rightharpoonup> MappableControl"
  isMidiLearning :: "MappableControl option"

text \<open>
  \<open>handleMidiMessage\<close>: the new state and the control whose action is dispatched, if any.
  In learn mode (\<open>isMidiLearning\<close> is a non-empty string) the message is bound and learn
  mode ends; otherwise the message is looked up in the reverse index.
\<close>

definition handleMidiMessage :: "nat \<Rightarrow> nat \<Rightarrow> nat \<Rightarrow> MidiState \<Rightarrow> MidiState \<times> MappableControl option" where
  "handleMidiMessage command data1 data2 st =
     (case midiMessageId command data1 data2 of
        None \<Rightarrow> (st, None)
      | Some messageId \<Rightarrow>
          (case (if isMidiLearning st = Some [] then None else isMidiLearning st) of
             Some control \<Rightarrow>
               (st\<lparr> midiMapping := learnMapping control messageId (midiMapping st),
                    isMidiLearning := None \<rparr>, None)
           | None \<Rightarrow>
               (st, case reverseMidiMapping st messageId of
                      None \<Rightarrow> None
                    | Some targetControl \<Rightarrow> if targetControl = [] then None else Some targetControl)))"

text \<open>
  The effect that runs when \<open>midiMapping\<close> has changed. \<open>stored\<close> tells whether
  \<open>localStorage.setItem\<close> returned; when it throws, the \<open>catch\<close> skips the rebuild.
\<close>

definition persistMidiMapping :: "bool \<Rightarrow> MidiState \<Rightarrow> MidiState" where
  "persistMidiMapping stored st =
     (if stored then st\<lparr> reverseMidiMapping := reverseOf (midiMapping st) \<rparr> else st)"

text \<open>At most one control for each message.\<close>

definition oneControlPerMessage :: "MidiMapping \<Rightarrow> bool" where
  "oneControlPerMessage m =
     (\<forall>(c, msg) \<in> set m. \<forall>(c', msg') \<in> set m. msg = msg' \<longrightarrow> c = c')"

section \<open>Beat-kit store (saveBeatsToDB, loadBeatsFromDB)\<close>

text \<open>
  The beats state \<open>Record<string, (Beat | null)[]>\<close> is an association list in property
  order; a slot is \<open>None\<close> for \<open>null\<close>. A record of the object store has the key
  \<open>id\<close> (here \<open>item_id\<close>), the category, the index and the beat.
\<close>

type_synonym BeatsState = "(string \<times> Beat option list) list"

record StoredItem =
  item_id :: string
  category :: string
  index :: nat
  beat :: Beat

datatype IDBError = OpenError | RequestError

text \<open>\<open>const { file, audioBuffer, ...storableBeat } = beat\<close>\<close>

definition storableBeat :: "Beat \<Rightarrow> Beat" where
  "storableBeat b = b\<lparr> file_song := None, audioBuffer := None \<rparr>"

text \<open>The records \<open>forEach\<close> adds for one category: one for each slot that holds a beat.\<close>

definition addedItems :: "string \<Rightarrow> Beat option list \<Rightarrow> StoredItem list" where
  "addedItems cat slots =
     concat (map (\<lambda>(i, slot).
                    case slot of
                      None \<Rightarrow> []
                    | Some b \<Rightarrow> [\<lparr> item_id = cat @ ''-'' @ showNat i, category = cat,
                                   index = i, beat = storableBeat b \<rparr>])
                 (enumerate 0 slots))"

text \<open>
  \<open>saveBeatsToDB\<close>: the outcome of the promise and the records of the store afterwards.
  \<open>failure\<close> says whether opening the database or clearing the store fails; then the
  promise rejects and the store keeps its \<open>records\<close>. Otherwise the store is cleared and
  the records are added in the order of the categories and slots (their keys differ from
  one another, so that no \<open>add\<close> meets an existing key).
\<close>

definition saveBeatsToDB :: "IDBError option \<Rightarrow> BeatsState \<Rightarrow> StoredItem list \<Rightarrow> (IDBError + unit) \<times> StoredItem list" where
  "saveBeatsToDB failure beats records =
     (case failure of
        Some e \<Rightarrow> (Inl e, records)
      | None \<Rightarrow> (Inr (), concat (map (\<lambda>(cat, slots). addedItems cat slots) beats)))"

definition emptyBeats :: BeatsState where
  "emptyBeats =
     [(''drum'', replicate 12 None), (''tuning'', replicate 12 None),
      (''instrumental'', replicate 12 None)]"

text \<open>\<open>xs[i] = v\<close> on a JavaScript array: past the end the array grows, with holes.\<close>

definition arraySet :: "'a option list \<Rightarrow> nat \<Rightarrow> 'a option \<Rightarrow> 'a option list" where
  "arraySet xs i v =
     (if i < length xs then xs[i := v] else xs @ replicate (i - length xs) None @ [v])"

text \<open>The body of \<open>savedBeats.forEach\<close>: an item of an unknown category is dropped.\<close>

definition placeItem :: "BeatsState \<Rightarrow> StoredItem \<Rightarrow> BeatsState" where
  "placeItem newBeatsState item =
     (case map_of newBeatsState (category item) of
        None \<Rightarrow> newBeatsState
      | Some slots \<Rightarrow>
          AList.update (category item) (arraySet slots (index item) (Some (beat item)))
            newBeatsState)"

text \<open>
  \<open>loadBeatsFromDB\<close>, from what the database gives: an error (opening fails, or the
  \<open>getAll\<close> request fails) or the list \<open>getAll\<close> returns (empty on the first run, when
  opening has just created the store).
\<close>

definition loadBeatsFromDB :: "IDBError + StoredItem list \<Rightarrow> BeatsState" where
  "loadBeatsFromDB got =
     (case got of
        Inl e \<Rightarrow> emptyBeats
      | Inr savedBeats \<Rightarrow> foldl placeItem emptyBeats savedBeats)"

text \<open>One category's array after the items are placed, named for the proofs.\<close>

definition slotsAfter :: "StoredItem list \<Rightarrow> string \<Rightarrow> Beat option list \<Rightarrow> Beat option list" where
  "slotsAfter items cat slots =
     foldl (\<lambda>acc it. if category it = cat then arraySet acc (index it) (Some (beat it)) else acc)
       slots items"

section \<open>Auto-DJ track selection (getNextTrack)\<close>

datatype TransitionType = Smart | Crossfade | Cut | FadeInOut | EQFade | LoopOut | FilterFade
datatype PlaylistSource = FromLibrary | FromQueues
datatype EnergyFlow = AnyEnergy | Maintain | Increase | Decrease

text \<open>\<open>interface AutoDjSettings\<close>; \<open>bpmMatch.range\<close> is \<open>bpm_range\<close>.\<close>

record BpmMatch =
  enabled :: bool
  bpm_range :: real

record AutoDjSettings =
  transitionType :: TransitionType
  transitionDuration :: real
  transitionTrigger :: real
  playlistSource :: PlaylistSource
  shuffle :: bool
  harmonicMix :: bool
  genreMatch :: bool
  bpmMatch :: BpmMatch
  avoidRepeatingArtist :: bool
  autoGain :: bool
  beatMatch :: bool
  energyFlow :: EnergyFlow

text \<open>The state \<open>getNextTrack\<close> reads (the dependencies of its \<open>useCallback\<close>).\<close>

record AutoDj =
  autoDjActiveDeck :: DeckId
  deckA :: DeckState
  deckB :: DeckState
  autoDjSettings :: AutoDjSettings
  queueA :: "Song list"
  queueB :: "Song list"
  library :: "Song list"
  autoDjHistory :: "Song list"

text \<open>
  Outcomes that are not a value of the model: an exception, and a deck position that has
  become \<open>NaN\<close>.
\<close>

datatype JsError = TypeError | NotANumber

text \<open>\<open>xs[i]\<close> read from an array: \<open>undefined\<close> outside the array.\<close>

definition arrayGet :: "'a list \<Rightarrow> int \<Rightarrow> 'a option" where
  "arrayGet xs i = (if 0 \<le> i \<and> i < int (length xs) then Some (xs ! nat i) else None)"

text \<open>\<open>findIndex\<close>: \<open>None\<close> for -1.\<close>

definition findIndex :: "('a \<Rightarrow> bool) \<Rightarrow> 'a list \<Rightarrow> nat option" where
  "findIndex P xs = (if list_ex P xs then Some (length (takeWhile (\<lambda>x. \<not> P x) xs)) else None)"

subsection \<open>getArtistFromName\<close>

text \<open>
  The regular expression \<open>^(.*?)\s+-\s+.+$\<close>. The dot matches any character but a line
  terminator (LF and CR in the range of the model).
  \<open>spacesThenText t\<close>: \<open>t\<close> matches \<open>\s+.+$\<close>, one or more white-space characters
  followed by one or more characters with no line terminator, up to the end.
\<close>

definition isLineTerminator :: "char \<Rightarrow> bool" where
  "isLineTerminator c = (c = CHR 0x0A \<or> c = CHR 0x0D)"

fun spacesThenText :: "string \<Rightarrow> bool" where
  "spacesThenText [] = False"
| "spacesThenText (c # cs) =
     (isWhiteSpace c \<and>
      ((cs \<noteq> [] \<and> list_all (\<lambda>d. \<not> isLineTerminator d) cs) \<or> spacesThenText cs))"

text \<open>
  \<open>t\<close> matches \<open>\s+-\s+.+$\<close>: the first run of white space is the whole run before the
  hyphen, as a hyphen is no white space.
\<close>

definition matchesSeparator :: "string \<Rightarrow> bool" where
  "matchesSeparator t =
     (let r = dropWhile isWhiteSpace t
      in takeWhile isWhiteSpace t \<noteq> [] \<and> take 1 r = ''-'' \<and> spacesThenText (drop 1 r))"

text \<open>
  The lazy group \<open>(.*?)\<close>: the shortest prefix without a line terminator after which the
  rest matches. \<open>acc\<close> is the prefix consumed so far.
\<close>

fun lazyGroup :: "string \<Rightarrow> string \<Rightarrow> string option" where
  "lazyGroup acc [] = None"
| "lazyGroup acc (c # cs) =
     (if matchesSeparator (c # cs) then Some acc
      else if isLineTerminator c then None
      else lazyGroup (acc @ [c]) cs)"

definition trim :: "string \<Rightarrow> string" where
  "trim s = rev (dropWhile isWhiteSpace (rev (dropWhile isWhiteSpace s)))"

definition getArtistFromName :: "string \<Rightarrow> string option" where
  "getArtistFromName nm = (case lazyGroup [] nm of None \<Rightarrow> None | Some g \<Rightarrow> Some (trim g))"

text \<open>
  \<open>toLowerCase\<close> on Latin-1: the letters A to Z and the accented capitals from 0xC0 to
  0xDE (but the multiplication sign 0xD7) go to the letter 32 places on.
\<close>

definition upperCaseLetters :: string where
  "upperCaseLetters =
     ''ABCDEFGHIJKLMNOPQRSTUVWXYZ'' @
     [CHR 0xC0, CHR 0xC1, CHR 0xC2, CHR 0xC3, CHR 0xC4, CHR 0xC5, CHR 0xC6, CHR 0xC7,
      CHR 0xC8, CHR 0xC9, CHR 0xCA, CHR 0xCB, CHR 0xCC, CHR 0xCD, CHR 0xCE, CHR 0xCF,
      CHR 0xD0, CHR 0xD1, CHR 0xD2, CHR 0xD3, CHR 0xD4, CHR 0xD5, CHR 0xD6,
      CHR 0xD8, CHR 0xD9, CHR 0xDA, CHR 0xDB, CHR 0xDC, CHR 0xDD, CHR 0xDE]"

definition lowerCaseLetters :: string where
  "lowerCaseLetters =
     ''abcdefghijklmnopqrstuvwxyz'' @
     [CHR 0xE0, CHR 0xE1, CHR 0xE2, CHR 0xE3, CHR 0xE4, CHR 0xE5, CHR 0xE6, CHR 0xE7,
      CHR 0xE8, CHR 0xE9, CHR 0xEA, CHR 0xEB, CHR 0xEC, CHR 0xED, CHR 0xEE, CHR 0xEF,
      CHR 0xF0, CHR 0xF1, CHR 0xF2, CHR 0xF3, CHR 0xF4, CHR 0xF5, CHR 0xF6,
      CHR 0xF8, CHR 0xF9, CHR 0xFA, CHR 0xFB, CHR 0xFC, CHR 0xFD, CHR 0xFE]"

definition toLowerCase :: "string \<Rightarrow> string" where
  "toLowerCase s =
     map (\<lambda>c. case map_of (zip upperCaseLetters lowerCaseLetters) c of
                 None \<Rightarrow> c
               | Some l \<Rightarrow> l) s"

subsection \<open>The tiers of the selection pool\<close>

text \<open>
  \<open>s.id !== currentSongId\<close> with \<open>currentSongId\<close> possibly \<open>undefined\<close> is
  \<open>Some (id_song s) \<noteq> currentSongId\<close>. \<open>Math.ceil(n / 2)\<close> is \<open>(n + 1) div 2\<close>.
  \<open>if (currentSongId)\<close> adds the identifier only when it is not 0.
\<close>

definition tieredPool :: "Song list \<Rightarrow> Song list \<Rightarrow> real option \<Rightarrow> real option \<Rightarrow> Song list" where
  "tieredPool lib history currentSongId avoidTrackId =
     (let historyIds = map id_song history;
          tier1 = filter (\<lambda>s. id_song s \<notin> set historyIds \<and> Some (id_song s) \<noteq> currentSongId
                              \<and> Some (id_song s) \<noteq> avoidTrackId) lib;
          tier2 =
            (if tier1 = [] \<and> length lib > 1
             then let recentHistoryCount = (length history + 1) div 2;
                      recentHistoryIds =
                        map id_song (take recentHistoryCount history)
                        @ (case currentSongId of None \<Rightarrow> [] | Some c \<Rightarrow> if c \<noteq> 0 then [c] else [])
                        @ (case avoidTrackId of None \<Rightarrow> [] | Some a \<Rightarrow> if a \<noteq> 0 then [a] else [])
                  in filter (\<lambda>s. id_song s \<notin> set recentHistoryIds) lib
             else tier1);
          tier3 =
            (if tier2 = [] \<and> length lib > 1
             then filter (\<lambda>s. Some (id_song s) \<noteq> currentSongId \<and> Some (id_song s) \<noteq> avoidTrackId) lib
             else tier2);
          tier4 =
            (if tier3 = []
             then let rest = filter (\<lambda>s. Some (id_song s) \<noteq> avoidTrackId) lib
                  in if rest = [] then lib else rest
             else tier3)
      in tier4)"

subsection \<open>The criteria filters\<close>

definition songEnergy :: "Song option \<Rightarrow> real option" where
  "songEnergy s = (case s of None \<Rightarrow> None | Some t \<Rightarrow> energy t)"

definition songBpm :: "Song option \<Rightarrow> real option" where
  "songBpm s = (case s of None \<Rightarrow> None | Some t \<Rightarrow> bpm t)"

definition songGenre :: "Song option \<Rightarrow> string option" where
  "songGenre s = (case s of None \<Rightarrow> None | Some t \<Rightarrow> genre t)"

definition songKey :: "Song option \<Rightarrow> string option" where
  "songKey s = (case s of None \<Rightarrow> None | Some t \<Rightarrow> key t)"

definition songName :: "Song option \<Rightarrow> string option" where
  "songName s = (case s of None \<Rightarrow> None | Some t \<Rightarrow> Some (name t))"

text \<open>
  The block "Apply User Criteria Filtering" of \<open>getNextTrack\<close>: \<open>filteredTracks\<close> after
  the five \<open>if\<close> statements, from the settings, the song of the active deck and the
  selection pool.
\<close>

definition filteredTracks :: "AutoDjSettings \<Rightarrow> Song option \<Rightarrow> Song list \<Rightarrow> Song list" where
  "filteredTracks settings activeSong selectionPool =
     (let f0 = selectionPool;
          f1 =
            (case songEnergy activeSong of
               None \<Rightarrow> f0
             | Some currentEnergy \<Rightarrow>
                 if energyFlow settings \<noteq> AnyEnergy \<and> currentEnergy \<noteq> 0
                 then let energyMatches =
                            filter (\<lambda>s. case energy s of
                                          None \<Rightarrow> True
                                        | Some e \<Rightarrow>
                                            if e = 0 then True
                                            else (case energyFlow settings of
                                                    Maintain \<Rightarrow> \<bar>e - currentEnergy\<bar> \<le> 2
                                                  | Increase \<Rightarrow> e > currentEnergy
                                                  | Decrease \<Rightarrow> e < currentEnergy
                                                  | AnyEnergy \<Rightarrow> True)) f0
                      in if energyMatches \<noteq> [] then energyMatches else f0
                 else f0);
          f2 =
            (case songName activeSong of
               None \<Rightarrow> f1
             | Some currentName \<Rightarrow>
                 if avoidRepeatingArtist settings \<and> currentName \<noteq> []
                 then (case getArtistFromName currentName of
                         None \<Rightarrow> f1
                       | Some currentArtist \<Rightarrow>
                           if currentArtist \<noteq> []
                           then let artistMatches =
                                      filter (\<lambda>s. case getArtistFromName (name s) of
                                                    None \<Rightarrow> True
                                                  | Some nextArtist \<Rightarrow>
                                                      if nextArtist = [] then True
                                                      else toLowerCase nextArtist
                                                             \<noteq> toLowerCase currentArtist) f1
                                in if artistMatches \<noteq> [] then artistMatches else f1
                           else f1)
                 else f1);
          f3 =
            (case songBpm activeSong of
               None \<Rightarrow> f2
             | Some b \<Rightarrow>
                 if enabled (bpmMatch settings) \<and> b \<noteq> 0
                 then let r = bpm_range (bpmMatch settings);
                          bpmMatches =
                            filter (\<lambda>s. case bpm s of
                                          None \<Rightarrow> False
                                        | Some v \<Rightarrow> v \<noteq> 0 \<and> v \<ge> b - r \<and> v \<le> b + r) f2
                      in if bpmMatches \<noteq> [] then bpmMatches else f2
                 else f2);
          f4 =
            (case songGenre activeSong of
               None \<Rightarrow> f3
             | Some g \<Rightarrow>
                 if genreMatch settings \<and> g \<noteq> []
                 then let genreMatches = filter (\<lambda>s. genre s = Some g) f3
                      in if genreMatches \<noteq> [] then genreMatches else f3
                 else f3);
          f5 =
            (case songKey activeSong of
               None \<Rightarrow> f4
             | Some k \<Rightarrow>
                 if harmonicMix settings \<and> k \<noteq> []
                 then let compatibleKeys = getCompatibleKeys k;
                          harmonicMatches =
                            filter (\<lambda>s. case key s of
                                          None \<Rightarrow> False
                                        | Some sk \<Rightarrow> sk \<noteq> [] \<and> sk \<in> set compatibleKeys) f4
                      in if harmonicMatches \<noteq> [] then harmonicMatches else f4
                 else f4)
      in f5)"

subsection \<open>The criteria in the words of the specification\<close>

text \<open>
  A soft filter: a criterion that applies narrows the pool to the members that meet it,
  unless none does; then, or when the criterion does not apply, the pool is kept.
\<close>

definition softFilter :: "('a \<Rightarrow> bool) option \<Rightarrow> 'a list \<Rightarrow> 'a list" where
  "softFilter criterion pool =
     (case criterion of
        None \<Rightarrow> pool
      | Some P \<Rightarrow> if filter P pool = [] then pool else filter P pool)"

text \<open>
  The five criteria, each \<open>None\<close> when it is switched off or the current song lacks the
  attribute it compares with. Energy-flow direction: the candidate's energy stays within 2
  of the current one (maintain), is higher (increase) or lower (decrease); a candidate
  without energy passes.
\<close>

fun energyDirection :: "EnergyFlow \<Rightarrow> real \<Rightarrow> real \<Rightarrow> bool" where
  "energyDirection AnyEnergy cur e = True"
| "energyDirection Maintain cur e = (\<bar>e - cur\<bar> \<le> 2)"
| "energyDirection Increase cur e = (cur < e)"
| "energyDirection Decrease cur e = (e < cur)"

definition energyCriterion :: "AutoDjSettings \<Rightarrow> Song option \<Rightarrow> (Song \<Rightarrow> bool) option" where
  "energyCriterion settings activeSong =
     (case songEnergy activeSong of
        None \<Rightarrow> None
      | Some cur \<Rightarrow>
          if energyFlow settings = AnyEnergy \<or> cur = 0 then None
          else Some (\<lambda>s. case energy s of
                           None \<Rightarrow> True
                         | Some e \<Rightarrow> e = 0 \<or> energyDirection (energyFlow settings) cur e))"

text \<open>Artist-repeat avoidance: the candidate has no artist, or another one (case ignored).\<close>

definition artistCriterion :: "AutoDjSettings \<Rightarrow> Song option \<Rightarrow> (Song \<Rightarrow> bool) option" where
  "artistCriterion settings activeSong =
     (case activeSong of
        None \<Rightarrow> None
      | Some cur \<Rightarrow>
          (case getArtistFromName (name cur) of
             None \<Rightarrow> None
           | Some currentArtist \<Rightarrow>
               if avoidRepeatingArtist settings \<and> name cur \<noteq> [] \<and> currentArtist \<noteq> []
               then Some (\<lambda>s. case getArtistFromName (name s) of
                                None \<Rightarrow> True
                              | Some nextArtist \<Rightarrow>
                                  nextArtist = []
                                  \<or> toLowerCase nextArtist \<noteq> toLowerCase currentArtist)
               else None))"

text \<open>BPM window: the candidate's tempo is within the range around the current one.\<close>

definition bpmCriterion :: "AutoDjSettings \<Rightarrow> Song option \<Rightarrow> (Song \<Rightarrow> bool) option" where
  "bpmCriterion settings activeSong =
     (case songBpm activeSong of
        None \<Rightarrow> None
      | Some b \<Rightarrow>
          if enabled (bpmMatch settings) \<and> b \<noteq> 0
          then Some (\<lambda>s. case bpm s of
                           None \<Rightarrow> False
                         | Some v \<Rightarrow> v \<noteq> 0 \<and> \<bar>v - b\<bar> \<le> bpm_range (bpmMatch settings))
          else None)"

text \<open>Exact genre match.\<close>

definition genreCriterion :: "AutoDjSettings \<Rightarrow> Song option \<Rightarrow> (Song \<Rightarrow> bool) option" where
  "genreCriterion settings activeSong =
     (case songGenre activeSong of
        None \<Rightarrow> None
      | Some g \<Rightarrow> if genreMatch settings \<and> g \<noteq> [] then Some (\<lambda>s. genre s = Some g) else None)"

text \<open>Harmonic-key compatibility: the candidate's key is one of the compatible keys.\<close>

definition harmonicCriterion :: "AutoDjSettings \<Rightarrow> Song option \<Rightarrow> (Song \<Rightarrow> bool) option" where
  "harmonicCriterion settings activeSong =
     (case songKey activeSong of
        None \<Rightarrow> None
      | Some k \<Rightarrow>
          if harmonicMix settings \<and> k \<noteq> []
          then Some (\<lambda>s. case key s of
                           None \<Rightarrow> False
                         | Some sk \<Rightarrow> sk \<noteq> [] \<and> sk \<in> set (getCompatibleKeys k))
          else None)"

text \<open>The criteria applied one after the other, in the order the specification lists.\<close>

definition softCriteria :: "AutoDjSettings \<Rightarrow> Song option \<Rightarrow> Song list \<Rightarrow> Song list" where
  "softCriteria settings activeSong pool =
     softFilter (harmonicCriterion settings activeSong)
       (softFilter (genreCriterion settings activeSong)
         (softFilter (bpmCriterion settings activeSong)
           (softFilter (artistCriterion settings activeSong)
             (softFilter (energyCriterion settings activeSong) pool))))"

subsection \<open>The final pick\<close>

text \<open>
  The loop \<open>for (i = 1; i <= library.length; i++)\<close> of the sequential pick, over the
  remaining values of \<open>i\<close>: the first pool member met in library order after the current
  song, \<open>None\<close> when the loop ends without one. Reading \<open>.id\<close> of a missing library
  entry would throw.
\<close>

fun sequentialPick :: "Song list \<Rightarrow> Song list \<Rightarrow> nat \<Rightarrow> nat list \<Rightarrow> JsError + Song option" where
  "sequentialPick lib pool currentSongIndex [] = Inr None"
| "sequentialPick lib pool currentSongIndex (i # rest) =
     (let nextIndex = (currentSongIndex + i) mod length lib
      in case arrayGet lib (int nextIndex) of
           None \<Rightarrow> Inl TypeError
         | Some nextSongInLibrary \<Rightarrow>
             (case find (\<lambda>p. id_song p = id_song nextSongInLibrary) pool of
                Some m \<Rightarrow> Inr (Some m)
              | None \<Rightarrow> sequentialPick lib pool currentSongIndex rest))"

text \<open>
  \<open>getNextTrack(avoidTrackId)\<close>. \<open>random\<close> is the value \<open>Math.random()\<close> returns, a
  number from 0 up to but not including 1. The result is \<open>Inl\<close> for an exception,
  \<open>Inr None\<close> for \<open>null\<close> or \<open>undefined\<close>, \<open>Inr (Some t)\<close> for a track.
\<close>

definition getNextTrack :: "AutoDj \<Rightarrow> real \<Rightarrow> real option \<Rightarrow> JsError + Song option" where
  "getNextTrack st random avoidTrackId =
     (let activeDeckState = (if autoDjActiveDeck st = DeckA then deckA st else deckB st);
          nextDeckQueue = (if autoDjActiveDeck st = DeckA then queueB st else queueA st)
      in if playlistSource (autoDjSettings st) = FromQueues \<and> nextDeckQueue \<noteq> []
         then Inr (arrayGet nextDeckQueue 0)
         else if library st = [] then Inr None
         else
           let currentSongId = map_option id_song (song activeDeckState);
               selectionPool = tieredPool (library st) (autoDjHistory st) currentSongId avoidTrackId
           in if selectionPool = [] then Inr None
              else
                let filtered = filteredTracks (autoDjSettings st) (song activeDeckState) selectionPool;
                    finalSelectionPool = (if filtered \<noteq> [] then filtered else selectionPool)
                in if shuffle (autoDjSettings st)
                   then Inr (arrayGet finalSelectionPool \<lfloor>random * real (length finalSelectionPool)\<rfloor>)
                   else
                     (case findIndex (\<lambda>s. Some (id_song s) = currentSongId) (library st) of
                        None \<Rightarrow> Inr (arrayGet finalSelectionPool 0)
                      | Some currentSongIndex \<Rightarrow>
                          (case sequentialPick (library st) finalSelectionPool currentSongIndex
                                  [1..<length (library st) + 1] of
                             Inl e \<Rightarrow> Inl e
                           | Inr (Some m) \<Rightarrow> Inr (Some m)
                           | Inr None \<Rightarrow> Inr (arrayGet finalSelectionPool 0))))"

section \<open>Mixing stage: the crossfader laws\<close>

text \<open>
  \<open>Math.PI\<close> is a constant of the language: the double nearest to \<open>\<pi>\<close>, which is the
  rational number \<open>884279719003555 / 2^48\<close>.
\<close>

definition Math_PI :: real where
  "Math_PI = 884279719003555 / 281474976710656"

text \<open>\<open>type CrossfaderCurveType = 'linear' | 'slow-fade' | 'fast-cut'\<close>\<close>

datatype CrossfaderCurveType = Linear | SlowFade | FastCut

text \<open>
  The gains \<open>(gainA, gainB)\<close> the crossfader effect computes from the curve and the
  crossfader value, every operation rounding to a double; \<open>position * Math.PI / 2\<close> is
  \<open>(position * Math.PI) / 2\<close>. The \<open>default\<close> of the \<open>switch\<close> is the linear law.
\<close>

definition crossfaderGains :: "CrossfaderCurveType \<Rightarrow> real \<Rightarrow> real \<times> real" where
  "crossfaderGains crossfaderCurve crossfader =
     (let position = div64 (add64 crossfader 1) 2
      in case crossfaderCurve of
           SlowFade \<Rightarrow> (Math_cos (div64 (mul64 position Math_PI) 2),
                        Math_sin (div64 (mul64 position Math_PI) 2))
         | FastCut \<Rightarrow>
             (let p = (if position < 0.5 then mul64 2 position else mul64 2 (sub64 1 position));
                  shapedP = Math_pow p 3
              in if position < 0.5 then (sub64 1 (div64 shapedP 2), div64 shapedP 2)
                 else (div64 shapedP 2, sub64 1 (div64 shapedP 2)))
         | Linear \<Rightarrow> (sub64 1 position, position))"

text \<open>
  The partial sums of the series of the arc tangent, for the bounds on \<open>\<pi>\<close> that compare
  it with \<open>Math.PI\<close>.
\<close>

fun arctanSum :: "nat \<Rightarrow> real \<Rightarrow> real" where
  "arctanSum 0 x = 0"
| "arctanSum (Suc n) x = arctanSum n x + (- 1) ^ n * (1 / real (n * 2 + 1) * x ^ (n * 2 + 1))"

section \<open>Deck audio, loops and the transport clock\<close>

text \<open>
  What the model keeps of a deck's audio ref: whether the nodes a new source is wired to
  exist (buffer, pre-fader tap, analyser, transition nodes), and the current source node
  with its loop flags, the offset it was started at, its rate and detune, and whether
  \<open>stop()\<close> was called on it.
\<close>

record SourceNode =
  src_loop :: bool
  src_loopStart :: real
  src_loopEnd :: real
  src_offset :: real
  src_playbackRate :: real
  src_detune :: real
  src_stopped :: bool

record DeckAudio =
  graphReady :: bool
  source :: "SourceNode option"

text \<open>
  The remainder operator \<open>%\<close> on numbers: \<open>fmod\<close> for a divisor that is not 0 (the
  quotient is truncated towards zero, so the result has the sign of the dividend); with a
  divisor 0 the result is \<open>NaN\<close>, here \<open>None\<close>.
\<close>

definition fmod :: "real \<Rightarrow> real \<Rightarrow> real" where
  "fmod a b = a - b * of_int (if 0 \<le> a / b then \<lfloor>a / b\<rfloor> else \<lceil>a / b\<rceil>)"

definition js_rem :: "real \<Rightarrow> real \<Rightarrow> real option" where
  "js_rem a b = (if b = 0 then None else Some (fmod a b))"

text \<open>
  \<open>updateAudioSourceLoop\<close>: with a source, its \<open>loop\<close> flag follows the loop, and the
  loop points are set when the loop is active with both bounds.
\<close>

definition updateAudioSourceLoop :: "DeckAudio \<Rightarrow> Loop \<Rightarrow> DeckAudio" where
  "updateAudioSourceLoop audio l =
     (case source audio of
        None \<Rightarrow> audio
      | Some src \<Rightarrow>
          let src1 = src\<lparr> src_loop := loop_active l \<rparr>
          in (case (loop_start l, loop_end l) of
                (Some s, Some e) \<Rightarrow>
                  if loop_active l
                  then audio\<lparr> source := Some (src1\<lparr> src_loopStart := s, src_loopEnd := e \<rparr>) \<rparr>
                  else audio\<lparr> source := Some src1 \<rparr>
              | _ \<Rightarrow> audio\<lparr> source := Some src1 \<rparr>))"

subsection \<open>handleSetLoop and the Loop Out pre-roll\<close>

text \<open>The second argument of \<open>handleSetLoop\<close>: 'in', 'out', 'exit', 'reloop' or \<open>{ beats }\<close>.\<close>

datatype LoopCommand = SetIn | SetOut | Exit | Reloop | Beats real

text \<open>
  \<open>handleSetLoop\<close> for one deck. \<open>deckState\<close> is the deck state of the render that
  created the handler (what the handler reads as \<open>deckState\<close>); the pair is the live
  state the updaters run on and the audio ref. \<open>!deckState.bpm\<close> holds for \<open>null\<close>
  and for 0.
\<close>

definition handleSetLoop :: "DeckState \<Rightarrow> LoopCommand \<Rightarrow> DeckState \<times> DeckAudio \<Rightarrow> DeckState \<times> DeckAudio" where
  "handleSetLoop deckState cmd da =
     (case da of (d, audio) \<Rightarrow>
        (case cmd of
           Beats beats \<Rightarrow>
             (case bpm_deck deckState of
                None \<Rightarrow> (d, audio)
              | Some b \<Rightarrow>
                  if b = 0 then (d, audio)
                  else
                    let beatDuration = 60 / b;
                        loopDuration = beats * beatDuration;
                        start = currentTime deckState;
                        end' = min (start + loopDuration) (duration deckState);
                        newLoop = \<lparr> loop_start = Some start, loop_end = Some end',
                                    loop_active = True \<rparr>
                    in (d\<lparr> loop := newLoop \<rparr>, updateAudioSourceLoop audio newLoop))
         | SetIn \<Rightarrow>
             (d\<lparr> loop := (loop d)\<lparr> loop_start := Some (currentTime d), loop_end := None,
                                    loop_active := False \<rparr> \<rparr>, audio)
         | SetOut \<Rightarrow>
             (case loop_start (loop deckState) of
                None \<Rightarrow> (d, audio)
              | Some s \<Rightarrow>
                  if currentTime deckState > s
                  then let newLoop = (loop deckState)\<lparr> loop_end := Some (currentTime deckState),
                                                        loop_active := True \<rparr>
                       in (d\<lparr> loop := newLoop \<rparr>, updateAudioSourceLoop audio newLoop)
                  else (d, audio))
         | Exit \<Rightarrow>
             (let newLoop = (loop deckState)\<lparr> loop_active := False \<rparr>
              in (d\<lparr> loop := newLoop \<rparr>, updateAudioSourceLoop audio newLoop))
         | Reloop \<Rightarrow>
             (if loop_start (loop deckState) \<noteq> None \<and> loop_end (loop deckState) \<noteq> None
              then let newLoop = (loop deckState)\<lparr> loop_active := True \<rparr>
                   in (d\<lparr> loop := newLoop \<rparr>, updateAudioSourceLoop audio newLoop)
              else (d, audio))))"

text \<open>
  The pre-roll of \<open>startTransition\<close> for the style 'Loop Out' (the style after the
  'Smart' choice, which never picks 'Loop Out'): a loop of 4 beats on the outgoing deck.
\<close>

definition loopOutPreRoll :: "TransitionType \<Rightarrow> DeckState \<Rightarrow> DeckState \<times> DeckAudio \<Rightarrow> DeckState \<times> DeckAudio" where
  "loopOutPreRoll style fromDeckState da =
     (case da of (d, audio) \<Rightarrow>
        (case bpm_deck fromDeckState of
           None \<Rightarrow> (d, audio)
         | Some b \<Rightarrow>
             if style = LoopOut \<and> b \<noteq> 0
             then let beatDuration = 60 / b;
                      loopDuration = 4 * beatDuration;
                      loopStartTime = currentTime fromDeckState;
                      loopEndTime = loopStartTime + loopDuration;
                      newLoop = \<lparr> loop_start = Some loopStartTime,
                                  loop_end = Some (min loopEndTime (duration fromDeckState)),
                                  loop_active = True \<rparr>
                  in (d\<lparr> loop := newLoop \<rparr>, updateAudioSourceLoop audio newLoop)
             else (d, audio)))"

text \<open>
  The invariant of the loop region: an active loop has both bounds, the end after the
  start.
\<close>

definition loopInvariant :: "Loop \<Rightarrow> bool" where
  "loopInvariant l =
     (if loop_active l
      then (case (loop_start l, loop_end l) of (Some s, Some e) \<Rightarrow> s < e | _ \<Rightarrow> False)
      else True)"

text \<open>
  The same for a loop that can be made active again by 'reloop': whenever both bounds are
  set, the end is after the start.
\<close>

definition loopBoundsOrdered :: "Loop \<Rightarrow> bool" where
  "loopBoundsOrdered l =
     (case (loop_start l, loop_end l) of
        (Some s, Some e) \<Rightarrow> s < e
      | (Some s, None) \<Rightarrow> if loop_active l then False else True
      | (None, _) \<Rightarrow> if loop_active l then False else True)"

subsection \<open>seekDeck and updateLoop\<close>

text \<open>
  \<open>seekDeck(deckId, newTime)\<close> for one deck. \<open>deckState\<close> is the deck state of the
  render that created this \<open>seekDeck\<close>, which is all the function reads; the updaters it
  queues run on the live state. \<open>newTime\<close> is \<open>None\<close> for \<open>NaN\<close>: a position that is
  \<open>NaN\<close> is the outcome \<open>NotANumber\<close>. A playing deck gets a new source started at the
  position; \<open>now\<close> is \<open>performance.now()\<close>.
\<close>

definition seekDeck :: "DeckState \<Rightarrow> real option \<Rightarrow> real \<Rightarrow> DeckState \<times> DeckAudio \<Rightarrow> JsError + DeckState \<times> DeckAudio" where
  "seekDeck deckState newTime now da =
     (case da of (d, audio) \<Rightarrow>
        if song deckState = None \<or> duration deckState = 0 then Inr (d, audio)
        else
          (case newTime of
             None \<Rightarrow> Inl NotANumber
           | Some t \<Rightarrow>
               let time = max 0 (min t (duration deckState));
                   newViewStartRatio =
                     (if zoom deckState > 1
                      then let visibleRatio = 1 / zoom deckState;
                               targetRatio = time / duration deckState
                           in max 0 (min (targetRatio - visibleRatio / 2) (1 - visibleRatio))
                      else viewStartRatio deckState);
                   d1 = d\<lparr> currentTime := time, viewStartRatio := newViewStartRatio \<rparr>
               in if isPlaying deckState
                  then
                    let stopped = audio\<lparr> source := map_option (\<lambda>src. src\<lparr> src_stopped := True \<rparr>)
                                                       (source audio) \<rparr>
                    in if graphReady audio
                       then
                         let newSource =
                               \<lparr> src_loop = False, src_loopStart = 0, src_loopEnd = 0,
                                 src_offset = time,
                                 src_playbackRate = playbackRate deckState,
                                 src_detune = (if keyLock deckState
                                               then - 1200 * log 2 (playbackRate deckState)
                                               else 0),
                                 src_stopped = False \<rparr>
                         in Inr (d1\<lparr> lastUpdateTime := Some now \<rparr>,
                                 updateAudioSourceLoop (audio\<lparr> source := Some newSource \<rparr>)
                                   (loop deckState))
                       else Inr (d1, stopped)
                  else Inr (d1, audio)))"

text \<open>
  The rest of the updater when no loop end is crossed: the zoomed view is recentred when
  the playhead comes near its edge, and the deck stops at the end of the track.
\<close>

definition advanceDeck :: "DeckState \<Rightarrow> real \<Rightarrow> real \<Rightarrow> real \<Rightarrow> DeckState" where
  "advanceDeck d newTime newAngle now =
     (let newViewStartRatio =
            (if zoom d > 1 \<and> duration d > 0
             then let visibleRatio = 1 / zoom d;
                      progressRatio = newTime / duration d;
                      viewEndRatio = viewStartRatio d + visibleRatio
                  in if progressRatio > viewEndRatio - visibleRatio * 0.2
                        \<or> progressRatio < viewStartRatio d + visibleRatio * 0.2
                     then max 0 (min (progressRatio - visibleRatio / 2) (1 - visibleRatio))
                     else viewStartRatio d
             else viewStartRatio d)
      in if newTime \<ge> duration d
         then d\<lparr> isPlaying := False, currentTime := duration d \<rparr>
         else d\<lparr> currentTime := newTime, platterAngle := newAngle,
                 viewStartRatio := newViewStartRatio, lastUpdateTime := Some now \<rparr>)"

text \<open>
  The updater of \<open>processDeck\<close> in \<open>updateLoop\<close>, with the \<open>seekDeck\<close> it calls: the
  state the updater returns, then the updaters \<open>seekDeck\<close> has queued. \<open>closure\<close> is the
  deck state the called \<open>seekDeck\<close> has closed over. The readings of
  \<open>performance.now()\<close> within one frame are taken as one value \<open>now\<close>.
\<close>

definition processDeck :: "DeckState \<Rightarrow> real \<Rightarrow> DeckState \<times> DeckAudio \<Rightarrow> JsError + DeckState \<times> DeckAudio" where
  "processDeck closure now da =
     (case da of (d, audio) \<Rightarrow>
        (case lastUpdateTime d of
           None \<Rightarrow> Inr (d, audio)
         | Some lastUpdate \<Rightarrow>
             if \<not> isPlaying d \<or> lastUpdate = 0 then Inr (d, audio)
             else
               let elapsed = (now - lastUpdate) / 1000;
                   newTime = currentTime d + elapsed * playbackRate d;
                   newAngle = fmod (platterAngle d + 2 * playbackRate d) 360
               in (case (loop_start (loop d), loop_end (loop d)) of
                     (Some s, Some e) \<Rightarrow>
                       if loop_active (loop d) \<and> newTime \<ge> e
                       then
                         let loopDuration = e - s;
                             timeOver = newTime - e;
                             wrapped = map_option (\<lambda>r. s + r) (js_rem timeOver loopDuration)
                         in seekDeck closure wrapped now
                              (d\<lparr> platterAngle := newAngle, lastUpdateTime := Some now \<rparr>, audio)
                       else Inr (advanceDeck d newTime newAngle now, audio)
                   | _ \<Rightarrow> Inr (advanceDeck d newTime newAngle now, audio))))"

text \<open>
  \<open>updateLoop\<close> is memoised with an empty dependency list (\<open>useCallback(..., [])\<close>), so
  it is the function of the first render for the whole session, and the \<open>seekDeck\<close> it
  calls is the one of the first render, which has closed over the initial deck states.
\<close>

definition updateLoop :: "real \<Rightarrow> DeckState \<times> DeckAudio \<Rightarrow> JsError + DeckState \<times> DeckAudio" where
  "updateLoop now da = processDeck initialDeckState now da"

section \<open>Loading a track into a deck (loadSong)\<close>

text \<open>
  What \<open>loadSong\<close> gets from the platform once the file is read and decoded: the song
  record built from the file name and the analysis (\<open>songWithDetails\<close>), the duration of
  the decoded buffer, the waveform summary, the detected key and the loudness estimate.
\<close>

record Decoded =
  songWithDetails :: Song
  buffer_duration :: real
  waveformData :: "real list"
  detectedKey :: string
  loudness :: real

datatype LoadError = AudioContextNotReady | ReadError | DecodeError

text \<open>The object literal \<open>newDeckState\<close>; it has no \<open>lastUpdateTime\<close> property.\<close>

definition newDeckState :: "Decoded \<Rightarrow> DeckState" where
  "newDeckState dec =
     \<lparr> song = Some (songWithDetails dec), isPlaying = False, gain = 50, volume = 0.75,
       playbackRate = 1, currentTime = 0, duration = buffer_duration dec, platterAngle = 0,
       cuePoints = [], bpm_deck = bpm (songWithDetails dec),
       loop = \<lparr> loop_start = None, loop_end = None, loop_active = False \<rparr>,
       waveform = Some (waveformData dec), key_deck = Some (detectedKey dec), zoom = 1,
       viewStartRatio = 0, perceivedLoudness = Some (loudness dec), lastUpdateTime = None,
       keyLock = False, scratchModeEnabled = False, wasPlayingBeforeScratch = False \<rparr>"

text \<open>
  \<open>{ ...d, ...newDeckState }\<close>: every property of \<open>newDeckState\<close> replaces that of
  \<open>d\<close>; \<open>lastUpdateTime\<close>, which the literal does not have, stays as in \<open>d\<close>.
\<close>

definition spreadNewDeckState :: "DeckState \<Rightarrow> DeckState \<Rightarrow> DeckState" where
  "spreadNewDeckState d nd = nd\<lparr> lastUpdateTime := lastUpdateTime d \<rparr>"

text \<open>
  \<open>loadSong\<close> for one deck: the first component is the deck state after the call (the
  updater passed to \<open>setDeckA\<close>/\<open>setDeckB\<close> applied to the live state \<open>d\<close>), the second
  the value the promise settles with (built from \<open>deckState\<close>, the state of the render
  that created the callback). A rejected load leaves the deck as it is.
\<close>

definition loadSong :: "LoadError + Decoded \<Rightarrow> DeckState \<Rightarrow> DeckState \<Rightarrow> DeckState \<times> (LoadError + DeckState)" where
  "loadSong input deckState d =
     (case input of
        Inl e \<Rightarrow> (d, Inl e)
      | Inr dec \<Rightarrow>
          ((spreadNewDeckState d (newDeckState dec))
             \<lparr> volume := volume d, keyLock := keyLock d,
               scratchModeEnabled := scratchModeEnabled d \<rparr>,
           Inr (spreadNewDeckState deckState (newDeckState dec))))"

section \<open>Example inputs\<close>

text \<open>The settings Auto-DJ starts with (the initial value of \<open>autoDjSettings\<close>).\<close>

definition initialAutoDjSettings :: AutoDjSettings where
  "initialAutoDjSettings =
     \<lparr> transitionType = Smart, transitionDuration = 8, transitionTrigger = 12,
       playlistSource = FromLibrary, shuffle = True, harmonicMix = True, genreMatch = False,
       bpmMatch = \<lparr> enabled = True, bpm_range = 5 \<rparr>, avoidRepeatingArtist = True,
       autoGain = True, beatMatch = True, energyFlow = AnyEnergy \<rparr>"

text \<open>All criteria switched on, the energy rising.\<close>

definition strictSettings :: AutoDjSettings where
  "strictSettings = initialAutoDjSettings\<lparr> genreMatch := True, energyFlow := Increase \<rparr>"

definition trackOne :: Song where
  "trackOne =
     \<lparr> id_song = 1, name = ''Daft Punk - One More Time'', file_song = Some (File 1),
       key = Some ''8A'', bpm = Some 120, genre = Some ''House'', energy = Some 5 \<rparr>"

definition trackTwo :: Song where
  "trackTwo =
     \<lparr> id_song = 2, name = ''Daft Punk - Aerodynamic'', file_song = Some (File 2),
       key = Some ''9A'', bpm = Some 122, genre = Some ''House'', energy = Some 7 \<rparr>"

definition trackThree :: Song where
  "trackThree =
     \<lparr> id_song = 3, name = ''Justice - Genesis'', file_song = Some (File 3),
       key = Some ''8B'', bpm = Some 150, genre = Some ''Techno'', energy = Some 8 \<rparr>"

definition trackFour :: Song where
  "trackFour =
     \<lparr> id_song = 4, name = ''Moby - Porcelain'', file_song = Some (File 4),
       key = Some ''7A'', bpm = Some 121, genre = Some ''Ambient'', energy = Some 3 \<rparr>"

text \<open>
  A library of two tracks, both played already; the first is on deck A, the active deck.
\<close>

definition twoTrackSession :: AutoDj where
  "twoTrackSession =
     \<lparr> autoDjActiveDeck = DeckA,
       deckA = initialDeckState\<lparr> song := Some trackOne, isPlaying := True, duration := 320,
                                 bpm_deck := Some 120 \<rparr>,
       deckB = initialDeckState,
       autoDjSettings = initialAutoDjSettings,
       queueA = [], queueB = [],
       library = [trackOne, trackThree],
       autoDjHistory = [trackThree, trackOne] \<rparr>"

text \<open>A kit with one pad: a kick on pad 3 of the drum category.\<close>

definition kickBeat :: Beat where
  "kickBeat =
     \<lparr> id_song = 1700000000000, name = ''kick.wav'', file_song = Some (File 1),
       key = Some ''8A'', bpm = Some 120, genre = Some ''House'', energy = None,
       audioBuffer = Some (AudioBuffer 1), arrayBuffer = Some (ArrayBuffer 1) \<rparr>"

definition kickKit :: BeatsState where
  "kickKit =
     [(''drum'', (replicate 12 None)[3 := Some kickBeat]),
      (''tuning'', replicate 12 None),
      (''instrumental'', replicate 12 None)]"

text \<open>
  A deck playing \<open>trackOne\<close> 10 ms before its end, with the transport clock last run at
  1000 ms; and a deck playing inside an active loop from 10 s to 14 s, at 13.9 s of
  simulated time, with a looping source.
\<close>

definition deckNearEnd :: DeckState where
  "deckNearEnd =
     initialDeckState\<lparr> song := Some trackOne, isPlaying := True, duration := 320,
                        currentTime := 319.99, bpm_deck := Some 120,
                        lastUpdateTime := Some 1000 \<rparr>"

definition loopingDeck :: DeckState where
  "loopingDeck =
     initialDeckState\<lparr> song := Some trackOne, isPlaying := True, duration := 320,
                        currentTime := 13.9, bpm_deck := Some 120,
                        loop := \<lparr> loop_start = Some 10, loop_end = Some 14, loop_active = True \<rparr>,
                        lastUpdateTime := Some 1000 \<rparr>"

definition loopingAudio :: DeckAudio where
  "loopingAudio =
     \<lparr> graphReady = True,
       source = Some \<lparr> src_loop = True, src_loopStart = 10, src_loopEnd = 14, src_offset = 0,
                       src_playbackRate = 1, src_detune = 0, src_stopped = False \<rparr> \<rparr>"

definition plainAudio :: DeckAudio where
  "plainAudio =
     \<lparr> graphReady = True,
       source = Some \<lparr> src_loop = False, src_loopStart = 0, src_loopEnd = 0, src_offset = 0,
                       src_playbackRate = 1, src_detune = 0, src_stopped = False \<rparr> \<rparr>"

definition deckAtEnd :: DeckState where
  "deckAtEnd = deckNearEnd\<lparr> isPlaying := False, currentTime := 320 \<rparr>"

text \<open>
  Three clock readings: the doubles nearest to 1000.4, 1960.4 and 2920.4, written as the
  rational numbers they are.
\<close>

definition stampA :: real where
  "stampA = 8799611459416883 / 2 ^ 43"

definition stampB :: real where
  "stampB = 4310965190184141 / 2 ^ 41"

definition stampC :: real where
  "stampC = 6422027515514061 / 2 ^ 41"

text \<open>
  A MIDI session: nothing mapped and \<open>crossfader\<close> being learnt; the state after the
  controller has sent control change 7 on channel 1, the mapping has been stored, and the
  user has asked to learn \<open>deckA_play\<close>; and the state after the controller has sent the
  same message again, \<open>stored\<close> telling whether \<open>localStorage.setItem\<close> returned this
  time.
\<close>

definition midiLearningCrossfader :: MidiState where
  "midiLearningCrossfader =
     \<lparr> midiMapping = [], reverseMidiMapping = Map.empty, isMidiLearning = Some ''crossfader'' \<rparr>"

definition midiLearningPlay :: MidiState where
  "midiLearningPlay =
     (persistMidiMapping True (fst (handleMidiMessage 176 7 64 midiLearningCrossfader)))
       \<lparr> isMidiLearning := Some ''deckA_play'' \<rparr>"

definition midiRemapped :: "bool \<Rightarrow> MidiState" where
  "midiRemapped stored = persistMidiMapping stored (fst (handleMidiMessage 176 7 64 midiLearningPlay))"

section \<open>Theorems\<close>

subsection \<open>Loading a track\<close>

text \<open>
  Claim C10. Loading a track into a deck keeps the deck's fader volume, key-lock flag and
  scratch-mode flag, and sets the preamp gain knob to 50 and the playback rate to 1,
  whatever they were before the load.
\<close>

theorem loadSong_frame:
  "volume (fst (loadSong (Inr dec) deckState d)) = volume d \<and>
   keyLock (fst (loadSong (Inr dec) deckState d)) = keyLock d \<and>
   scratchModeEnabled (fst (loadSong (Inr dec) deckState d)) = scratchModeEnabled d \<and>
   gain (fst (loadSong (Inr dec) deckState d)) = 50 \<and>
   playbackRate (fst (loadSong (Inr dec) deckState d)) = 1"
  by (simp add: loadSong_def spreadNewDeckState_def newDeckState_def)

subsection \<open>Harmonic compatibility\<close>

lemmas camelot_eval =
  getCompatibleKeys_def parseInt_def digitVal_def isWhiteSpace_def numberToString_def
  showNat.simps Let_def

lemma getCompatibleKeys_number_letter:
  assumes "n \<in> set [1..<13]" and "l \<in> set ''AB''"
  shows "getCompatibleKeys (showNat n @ [l]) =
           [showNat n @ [if l = CHR ''A'' then CHR ''B'' else CHR ''A''],
            showNat (n mod 12 + 1) @ [l],
            showNat ((n + 10) mod 12 + 1) @ [l]]"
  using assms
  apply (simp add: upt_rec [of _ "numeral _"] upt_rec [of 1])
  apply (elim disjE; simp add: camelot_eval)
  done

lemma CAMELOT_KEYS_wheel:
  "CAMELOT_KEYS = concat (map (\<lambda>n. [showNat n @ ''A'', showNat n @ ''B'']) [1..<13])"
  by (simp add: CAMELOT_KEYS_def upt_rec [of _ "numeral _"] upt_rec [of 1] showNat.simps)

text \<open>
  Claim C8. The Camelot keys are the numbers 1 to 12 with the letters A and B. For each of
  them \<open>getCompatibleKeys\<close> returns the same number with the other letter, the next number
  (12 going to 1) with the same letter and the previous number (1 going to 12) with the
  same letter. For "8A" that is exactly 8B, 9A, 7A; for "1A" the previous number is 12A.
\<close>

theorem getCompatibleKeys_camelot:
  "CAMELOT_KEYS = concat (map (\<lambda>n. [showNat n @ ''A'', showNat n @ ''B'']) [1..<13]) \<and>
   (\<forall>n \<in> set [1..<13]. \<forall>l \<in> set ''AB''.
      getCompatibleKeys (showNat n @ [l]) =
        [showNat n @ [if l = CHR ''A'' then CHR ''B'' else CHR ''A''],
         showNat (n mod 12 + 1) @ [l],
         showNat ((n + 10) mod 12 + 1) @ [l]]) \<and>
   set (getCompatibleKeys ''8A'') = {''8B'', ''9A'', ''7A''} \<and>
   getCompatibleKeys ''1A'' = [''1B'', ''2A'', ''12A'']"
proof (intro conjI ballI)
  show "CAMELOT_KEYS = concat (map (\<lambda>n. [showNat n @ ''A'', showNat n @ ''B'']) [1..<13])"
    by (rule CAMELOT_KEYS_wheel)
  show "set (getCompatibleKeys ''8A'') = {''8B'', ''9A'', ''7A''}"
    by (simp add: camelot_eval)
  show "getCompatibleKeys ''1A'' = [''1B'', ''2A'', ''12A'']"
    by (simp add: camelot_eval)
  show "getCompatibleKeys (showNat n @ [l]) =
        [showNat n @ [if l = CHR ''A'' then CHR ''B'' else CHR ''A''],
         showNat (n mod 12 + 1) @ [l],
         showNat ((n + 10) mod 12 + 1) @ [l]]"
    if "n \<in> set [1..<13]" and "l \<in> set ''AB''" for n l
    using that by (rule getCompatibleKeys_number_letter)
qed

theorem getCompatibleKeys_camelot_witness:
  "(12::nat) \<in> set [1..<13] \<and> CHR ''B'' \<in> set ''AB'' \<and>
   getCompatibleKeys ''12B'' = [''12A'', ''1B'', ''11B'']"
proof -
  have n: "(12::nat) \<in> set [1..<13]" by simp
  have l: "CHR ''B'' \<in> set ''AB''" by simp
  have "getCompatibleKeys (showNat 12 @ [CHR ''B'']) =
          [showNat 12 @ [if CHR ''B'' = CHR ''A'' then CHR ''B'' else CHR ''A''],
           showNat (12 mod 12 + 1) @ [CHR ''B''],
           showNat ((12 + 10) mod 12 + 1) @ [CHR ''B'']]"
    using getCompatibleKeys_camelot n l by blast
  then have "getCompatibleKeys ''12B'' = [''12A'', ''1B'', ''11B'']"
    by (simp add: showNat.simps)
  with n l show ?thesis by blast
qed

subsection \<open>The arithmetic of doubles\<close>

lemma roundTiesToEven_of_int: "roundTiesToEven (of_int k) = k"
  by (simp add: roundTiesToEven_def)

lemma roundTiesToEven_le:
  assumes "x \<le> of_int N"
  shows "roundTiesToEven x \<le> N"
proof (cases "x = of_int \<lfloor>x\<rfloor>")
  case True
  then have "roundTiesToEven x = \<lfloor>x\<rfloor>" by (metis roundTiesToEven_of_int)
  moreover have "\<lfloor>x\<rfloor> \<le> N" using assms by (simp add: floor_le_iff)
  ultimately show ?thesis by simp
next
  case False
  with assms have "x < of_int N" by (cases "x = of_int N") auto
  then have "\<lfloor>x\<rfloor> < N" by (simp add: floor_less_iff)
  moreover have "roundTiesToEven x \<le> \<lfloor>x\<rfloor> + 1" by (simp add: roundTiesToEven_def Let_def)
  ultimately show ?thesis by simp
qed

lemma roundTiesToEven_ge:
  assumes "of_int N \<le> x"
  shows "N \<le> roundTiesToEven x"
proof -
  have "N \<le> \<lfloor>x\<rfloor>" using assms by (simp add: le_floor_iff)
  moreover have "\<lfloor>x\<rfloor> \<le> roundTiesToEven x" by (simp add: roundTiesToEven_def Let_def)
  ultimately show ?thesis by simp
qed

lemma pow2_pos: "0 < (2::real) powr a"
  by simp

lemma exponent64_eq:
  assumes "2 powr of_int e \<le> \<bar>x\<bar>" and "\<bar>x\<bar> < 2 powr of_int (e + 1)"
  shows "exponent64 x = max e (- 1022)"
proof -
  have "0 < \<bar>x\<bar>" using assms(1) pow2_pos [of "of_int e"] by linarith
  then have "\<lfloor>log 2 \<bar>x\<bar>\<rfloor> = e" using assms by (simp add: floor_log_eq_powr_iff)
  then show ?thesis by (simp add: exponent64_def)
qed

lemma binade_bounds:
  assumes "x \<noteq> 0"
  shows "2 powr of_int \<lfloor>log 2 \<bar>x\<bar>\<rfloor> \<le> \<bar>x\<bar> \<and> \<bar>x\<bar> < 2 powr of_int (\<lfloor>log 2 \<bar>x\<bar>\<rfloor> + 1)"
proof -
  have "0 < \<bar>x\<bar>" using assms by simp
  from floor_log_eq_powr_iff [OF this, of 2 "\<lfloor>log 2 \<bar>x\<bar>\<rfloor>"] show ?thesis by simp
qed

lemma pow2_nat: "0 \<le> j \<Longrightarrow> (2::real) powr of_int j = of_int (2 ^ nat j)"
  by (simp add: powr_real_of_int)

lemma pow2_mono: "a \<le> b \<Longrightarrow> (2::real) powr of_int a \<le> 2 powr of_int b"
  by simp

lemma pow2_less_cancel: "(2::real) powr of_int a < 2 powr of_int b \<Longrightarrow> a < b"
  by simp

text \<open>A double over its unit in the last place is an integer.\<close>

lemma double_over_ulp:
  assumes m0: "m \<noteq> 0" and m: "\<bar>m\<bar> < 2 ^ 53" and k: "- 1074 \<le> k"
  shows "\<exists>n. real_of_int m * 2 powr of_int k
              / 2 powr of_int (exponent64 (of_int m * 2 powr of_int k) - 52) = of_int n"
proof -
  define x :: real where "x = of_int m * 2 powr of_int k"
  define em where "em = \<lfloor>log 2 \<bar>real_of_int m\<bar>\<rfloor>"
  have mr: "real_of_int m \<noteq> 0" using m0 by simp
  from binade_bounds [OF mr]
  have lo: "2 powr of_int em \<le> \<bar>real_of_int m\<bar>" and hi: "\<bar>real_of_int m\<bar> < 2 powr of_int (em + 1)"
    unfolding em_def by simp_all
  have "\<bar>real_of_int m\<bar> < 2 powr of_int 53"
    using m by (simp add: powr_real_of_int)
  with lo have "(2::real) powr of_int em < 2 powr of_int 53" by linarith
  then have em52: "em \<le> 52" using pow2_less_cancel [of em 53] by simp
  have ax: "\<bar>x\<bar> = \<bar>real_of_int m\<bar> * 2 powr of_int k" unfolding x_def by (simp add: abs_mult)
  have xlo: "2 powr of_int (em + k) \<le> \<bar>x\<bar>"
    unfolding ax using lo by (simp add: powr_add)
  have xhi: "\<bar>x\<bar> < 2 powr of_int (em + k + 1)"
  proof -
    have "\<bar>real_of_int m\<bar> * 2 powr of_int k < 2 powr of_int (em + 1) * 2 powr of_int k"
      using hi by simp
    also have "\<dots> = 2 powr of_int (em + k + 1)" by (simp add: powr_add [symmetric] ac_simps)
    finally show ?thesis unfolding ax .
  qed
  have ex: "exponent64 x = max (em + k) (- 1022)" using xlo xhi by (rule exponent64_eq)
  define j where "j = k - max (em + k) (- 1022) + 52"
  have j0: "0 \<le> j" unfolding j_def using em52 k by simp
  have "x / 2 powr of_int (exponent64 x - 52) = of_int m * 2 powr of_int j"
    unfolding x_def [symmetric] ex unfolding x_def j_def
    by (simp add: powr_diff powr_add field_simps)
  also have "\<dots> = of_int (m * 2 ^ nat j)" by (simp add: pow2_nat [OF j0])
  finally show ?thesis unfolding x_def by blast
qed

lemma toDouble_exact:
  assumes m: "\<bar>m\<bar> < 2 ^ 53" and k: "- 1074 \<le> k"
  shows "toDouble (of_int m * 2 powr of_int k) = of_int m * 2 powr of_int k"
proof (cases "m = 0")
  case True
  then show ?thesis by (simp add: toDouble_def)
next
  case False
  define x :: real where "x = of_int m * 2 powr of_int k"
  from double_over_ulp [OF False m k] obtain n
    where n: "x / 2 powr of_int (exponent64 x - 52) = of_int n" unfolding x_def by blast
  have x0: "x \<noteq> 0" unfolding x_def using False by simp
  have "toDouble x = of_int n * 2 powr of_int (exponent64 x - 52)"
    unfolding toDouble_def Let_def n roundTiesToEven_of_int using x0 by simp
  also have "\<dots> = x" unfolding n [symmetric] by simp
  finally show ?thesis unfolding x_def .
qed

lemma toDouble_of_int: "\<bar>n\<bar> < 2 ^ 53 \<Longrightarrow> toDouble (of_int n) = of_int n"
  using toDouble_exact [of n 0] by simp

lemma toDouble_nonneg:
  assumes "0 \<le> y"
  shows "0 \<le> toDouble y"
proof (cases "y = 0")
  case True
  then show ?thesis by (simp add: toDouble_def)
next
  case False
  have "of_int 0 \<le> y / 2 powr of_int (exponent64 y - 52)" using assms by simp
  from roundTiesToEven_ge [OF this] show ?thesis using False by (simp add: toDouble_def Let_def)
qed

lemma toDouble_le_pow2:
  assumes y0: "0 \<le> y" and yk: "y \<le> 2 powr of_int k" and k: "- 1074 \<le> k"
  shows "toDouble y \<le> 2 powr of_int k"
proof -
  consider "y = 0" | "y = 2 powr of_int k" | "0 < y" "y < 2 powr of_int k" using y0 yk by linarith
  then show ?thesis
  proof cases
    case 1
    then show ?thesis by (simp add: toDouble_def)
  next
    case 2
    from toDouble_exact [of 1 k] k show ?thesis unfolding 2 by simp
  next
    case 3
    define e where "e = \<lfloor>log 2 \<bar>y\<bar>\<rfloor>"
    have yn: "y \<noteq> 0" using 3 by simp
    from binade_bounds [OF yn] have lo: "2 powr of_int e \<le> y" unfolding e_def using 3 by simp
    with 3 have "(2::real) powr of_int e < 2 powr of_int k" by linarith
    then have ek: "e < k" by (rule pow2_less_cancel)
    define j where "j = k - exponent64 y + 52"
    have ex: "exponent64 y = max e (- 1022)" unfolding exponent64_def e_def ..
    have j0: "0 \<le> j" unfolding j_def ex using ek k by simp
    define ulp :: real where "ulp = 2 powr of_int (exponent64 y - 52)"
    have up: "0 < ulp" unfolding ulp_def by simp
    have "of_int k = of_int j + real_of_int (exponent64 y - 52)" unfolding j_def by simp
    then have "2 powr of_int k = 2 powr of_int j * ulp"
      unfolding ulp_def by (simp only: powr_add)
    then have pk: "2 powr of_int k = of_int (2 ^ nat j) * ulp"
      unfolding pow2_nat [OF j0] .
    have "y / ulp \<le> of_int (2 ^ nat j)"
      using 3(2) up unfolding pk by (simp add: field_simps)
    from roundTiesToEven_le [OF this]
    have "real_of_int (roundTiesToEven (y / ulp)) \<le> of_int (2 ^ nat j)" by (simp only: of_int_le_iff)
    then have "real_of_int (roundTiesToEven (y / ulp)) * ulp \<le> of_int (2 ^ nat j) * ulp"
      using up by (simp only: mult_le_cancel_right_pos)
    then show ?thesis unfolding pk using yn by (simp add: toDouble_def Let_def ulp_def)
  qed
qed

lemma toDouble_ge_pow2:
  assumes yk: "2 powr of_int k \<le> y" and k: "- 1022 \<le> k"
  shows "2 powr of_int k \<le> toDouble y"
proof -
  have ypos: "0 < y" using yk pow2_pos [of "of_int k"] by linarith
  then have yn: "y \<noteq> 0" by simp
  define e where "e = \<lfloor>log 2 \<bar>y\<bar>\<rfloor>"
  from binade_bounds [OF yn] have lo: "2 powr of_int e \<le> y" and hi: "y < 2 powr of_int (e + 1)"
    unfolding e_def using ypos by simp_all
  from yk hi have "(2::real) powr of_int k < 2 powr of_int (e + 1)" by linarith
  then have ke: "k \<le> e" using pow2_less_cancel [of k "e + 1"] by simp
  have ex: "exponent64 y = e" unfolding exponent64_def e_def [symmetric] using ke k by simp
  define ulp :: real where "ulp = 2 powr of_int (e - 52)"
  have up: "0 < ulp" unfolding ulp_def by simp
  have pe: "2 powr of_int e = of_int (2 ^ 52) * ulp"
    unfolding ulp_def by (simp add: powr_diff)
  have "of_int (2 ^ 52) \<le> y / ulp"
    using lo up unfolding pe by (simp add: field_simps)
  from roundTiesToEven_ge [OF this]
  have "real_of_int (2 ^ 52) \<le> of_int (roundTiesToEven (y / ulp))" by (simp only: of_int_le_iff)
  then have "of_int (2 ^ 52) * ulp \<le> real_of_int (roundTiesToEven (y / ulp)) * ulp"
    using up by (simp only: mult_le_cancel_right_pos)
  then have "2 powr of_int e \<le> toDouble y"
    unfolding pe using yn by (simp add: toDouble_def Let_def ex ulp_def)
  moreover have "(2::real) powr of_int k \<le> 2 powr of_int e" using ke by simp
  ultimately show ?thesis by linarith
qed

lemma max_differ:
  fixes a b c :: int
  assumes "max a c \<noteq> max b c" and "a \<le> b"
  shows "a < b \<and> c < b"
  using assms by auto

text \<open>Rounding never passes a double: a value at most a double \<open>d\<close> rounds to at most \<open>d\<close>.\<close>

lemma toDouble_le_double:
  assumes y0: "0 \<le> y" and m0: "0 < m" and m: "m < 2 ^ 53" and k: "- 1074 \<le> k"
      and yd: "y \<le> of_int m * 2 powr of_int k"
  shows "toDouble y \<le> of_int m * 2 powr of_int k"
proof (cases "y = 0")
  case True
  then show ?thesis using m0 by (simp add: toDouble_def)
next
  case False
  define d :: real where "d = of_int m * 2 powr of_int k"
  have dpos: "0 < d" unfolding d_def using m0 by simp
  have ypos: "0 < y" using y0 False by simp
  have dn: "d \<noteq> 0" using dpos by simp
  have mn: "m \<noteq> 0" and ma: "\<bar>m\<bar> < 2 ^ 53" using m0 m by simp_all
  from double_over_ulp [OF mn ma k] obtain n
    where n: "d / 2 powr of_int (exponent64 d - 52) = of_int n" unfolding d_def by blast
  have "log 2 y \<le> log 2 d" using ypos yd unfolding d_def [symmetric] by simp
  then have fl: "\<lfloor>log 2 \<bar>y\<bar>\<rfloor> \<le> \<lfloor>log 2 \<bar>d\<bar>\<rfloor>" using ypos dpos by (simp add: floor_mono)
  show ?thesis
  proof (cases "exponent64 y = exponent64 d")
    case True
    define ulp :: real where "ulp = 2 powr of_int (exponent64 d - 52)"
    have up: "0 < ulp" unfolding ulp_def by simp
    have "y / ulp \<le> d / ulp" using yd up unfolding d_def [symmetric] by (simp add: divide_right_mono)
    then have "y / ulp \<le> of_int n" using n unfolding ulp_def by simp
    from roundTiesToEven_le [OF this]
    have "real_of_int (roundTiesToEven (y / ulp)) \<le> of_int n" by (simp only: of_int_le_iff)
    then have "real_of_int (roundTiesToEven (y / ulp)) * ulp \<le> of_int n * ulp"
      using up by (simp only: mult_le_cancel_right_pos)
    also have "of_int n * ulp = d" unfolding n [symmetric] ulp_def by simp
    finally show ?thesis unfolding d_def [symmetric] using False True
      by (simp add: toDouble_def Let_def ulp_def)
  next
    case neq: False
    define e where "e = \<lfloor>log 2 \<bar>d\<bar>\<rfloor>"
    from neq fl have lt: "\<lfloor>log 2 \<bar>y\<bar>\<rfloor> < e" and e: "- 1022 < e"
      unfolding exponent64_def e_def by (rule max_differ [THEN conjunct1], rule max_differ [THEN conjunct2])
    from binade_bounds [OF False] have "\<bar>y\<bar> < 2 powr of_int (\<lfloor>log 2 \<bar>y\<bar>\<rfloor> + 1)" by simp
    also have "\<dots> \<le> 2 powr of_int e" using lt by simp
    finally have "y \<le> 2 powr of_int e" using ypos by simp
    from toDouble_le_pow2 [OF y0 this] e have "toDouble y \<le> 2 powr of_int e" by simp
    moreover from binade_bounds [OF dn] have "2 powr of_int e \<le> d" unfolding e_def using dpos by simp
    ultimately show ?thesis unfolding d_def by linarith
  qed
qed

lemma roundTiesToEven_near:
  assumes "of_int N - 1 / 2 < z" and "z < of_int N + 1 / 2"
  shows "roundTiesToEven z = N"
proof (cases "of_int N \<le> z")
  case True
  have "\<lfloor>z\<rfloor> = N" by (rule floor_unique) (use True assms in simp_all)
  then show ?thesis unfolding roundTiesToEven_def Let_def using assms by simp
next
  case False
  have "\<lfloor>z\<rfloor> = N - 1" by (rule floor_unique) (use False assms in simp_all)
  then show ?thesis unfolding roundTiesToEven_def Let_def using assms by simp
qed

lemma toDouble_in_binade:
  assumes "2 powr of_int e \<le> \<bar>y\<bar>" and "\<bar>y\<bar> < 2 powr of_int (e + 1)" and "- 1022 \<le> e"
  shows "toDouble y = of_int (roundTiesToEven (y / 2 powr of_int (e - 52))) * 2 powr of_int (e - 52)"
proof -
  have "0 < \<bar>y\<bar>" using assms(1) pow2_pos [of "of_int e"] by linarith
  then have yn: "y \<noteq> 0" by simp
  from exponent64_eq [OF assms(1,2)] assms(3) have "exponent64 y = e" by simp
  then show ?thesis unfolding toDouble_def Let_def using yn by simp
qed

lemma toDouble_numeral_small: "numeral w < (2 :: int) ^ 53 \<Longrightarrow> toDouble (numeral w) = numeral w"
  using toDouble_of_int [of "numeral w"] by simp

lemma toDouble_dyadic:
  assumes "\<bar>m\<bar> < 2 ^ 53" and "k \<le> 1074"
  shows "toDouble (of_int m / 2 ^ k) = of_int m / 2 ^ k"
proof -
  have "real_of_int m / 2 ^ k = of_int m * 2 powr of_int (- int k)"
    by (simp add: powr_minus powr_realpow divide_inverse)
  moreover have "toDouble (of_int m * 2 powr of_int (- int k)) = of_int m * 2 powr of_int (- int k)"
    using assms by (intro toDouble_exact) simp_all
  ultimately show ?thesis by simp
qed

lemma toDouble_numeral: "toDouble 0 = 0" "toDouble 1 = 1" "toDouble 2 = 2"
  using toDouble_of_int [of 0] toDouble_of_int [of 1] toDouble_of_int [of 2] by simp_all

lemma toDouble_unit:
  assumes "0 \<le> y" and "y \<le> 1"
  shows "0 \<le> toDouble y \<and> toDouble y \<le> 1"
  using toDouble_nonneg [OF assms(1)] toDouble_le_pow2 [of y 0] assms by simp

lemma toDouble_le_two:
  assumes "0 \<le> y" and "y \<le> 2"
  shows "toDouble y \<le> 2"
  using toDouble_le_pow2 [of y 1] assms by simp

lemma toDouble_le_half:
  assumes "0 \<le> y" and "y \<le> 1 / 2"
  shows "toDouble y \<le> 1 / 2"
  using toDouble_le_pow2 [of y "- 1"] assms by simp

text \<open>Just below 1 the doubles are \<open>2^-53\<close> apart: a value within \<open>2^-55\<close> of 1 rounds to 1.\<close>

lemma toDouble_near_one:
  assumes lo: "1 - 1 / 2 ^ 55 \<le> y" and hi: "y \<le> 1"
  shows "toDouble y = 1"
proof (cases "y = 1")
  case True
  then show ?thesis by (simp add: toDouble_numeral)
next
  case False
  with hi have y1: "y < 1" by simp
  have yn: "y \<noteq> 0" using lo by auto
  have "2 powr of_int (- 1) \<le> \<bar>y\<bar>" "\<bar>y\<bar> < 2 powr of_int (- 1 + 1)"
    using lo y1 by simp_all
  from exponent64_eq [OF this] have ex: "exponent64 y = - 1" by simp
  define z where "z = y * 2 ^ 53"
  have zlo: "2 ^ 53 - 1 / 4 \<le> z" unfolding z_def using lo by simp
  have zhi: "z < 2 ^ 53" unfolding z_def using y1 by simp
  have fl: "\<lfloor>z\<rfloor> = 2 ^ 53 - 1"
    by (rule floor_unique) (use zlo zhi in simp_all)
  have r: "roundTiesToEven z = 2 ^ 53"
    unfolding roundTiesToEven_def Let_def fl using zlo by simp
  have "y / 2 powr of_int (exponent64 y - 52) = z"
    unfolding ex z_def by (simp add: powr_neg_numeral)
  then have "toDouble y = of_int (roundTiesToEven z) * 2 powr of_int (- 1 - 52)"
    unfolding toDouble_def Let_def ex using yn by simp
  then show ?thesis unfolding r by (simp add: powr_neg_numeral)
qed

subsection \<open>Tap tempo\<close>

lemma tapIntervals_Cons2: "tapIntervals (x # y # zs) = sub64 y x # tapIntervals (y # zs)"
proof -
  have idx: "[1..<length (x # y # zs)] = 1 # map Suc [1..<length (y # zs)]"
    by (simp add: upt_conv_Cons map_Suc_upt del: upt_Suc)
  have "map (\<lambda>i. sub64 ((x # y # zs) ! i) ((x # y # zs) ! (i - 1))) (map Suc [1..<length (y # zs)])
      = map (\<lambda>i. sub64 ((y # zs) ! i) ((y # zs) ! (i - 1))) [1..<length (y # zs)]"
    unfolding map_map by (rule map_cong) (auto simp: nth_Cons split: nat.splits)
  then show ?thesis
    unfolding tapIntervals_def idx by simp
qed

lemma tapIntervals_zip: "tapIntervals ts = map (\<lambda>(a, b). sub64 b a) (zip ts (tl ts))"
proof (induction ts rule: induct_list012)
  case 1
  show ?case by (simp add: tapIntervals_def)
next
  case (2 x)
  show ?case by (simp add: tapIntervals_def)
next
  case (3 x y zs)
  then show ?case by (simp add: tapIntervals_Cons2)
qed

lemma length_tapIntervals: "length (tapIntervals ts) = length ts - 1"
  by (simp add: tapIntervals_def)

lemma averageInterval_meanInterval:
  "div64 (foldl add64 0 (tapIntervals ts)) (real (length (tapIntervals ts))) = meanInterval ts"
  unfolding length_tapIntervals meanInterval_def tapIntervals_zip [symmetric] ..

lemma shifted_window:
  assumes "length ts \<le> 5"
  shows "(if length (ts @ [now]) > 5 then tl (ts @ [now]) else ts @ [now])
           = drop (length (ts @ [now]) - 5) (ts @ [now])"
proof (cases "length ts = 5")
  case True
  then have "length (ts @ [now]) - 5 = 1" by simp
  then show ?thesis using True by (simp only: drop_Suc One_nat_def drop_0) simp
next
  case False
  with assms show ?thesis by simp
qed

lemma handleMetronomeTap_spec:
  assumes "length (tapTempoTimestamps m) \<le> 5"
  shows "handleMetronomeTap now m =
     \<lparr> tapTempoTimestamps = rollingWindow now (tapTempoTimestamps m),
       metronomeBpm = tappedBpm (rollingWindow now (tapTempoTimestamps m)) (metronomeBpm m) \<rparr>"
proof -
  define ts where "ts = tapTempoTimestamps m"
  define cleared where "cleared \<longleftrightarrow> ts \<noteq> [] \<and> last ts \<noteq> 0 \<and> 2000 < sub64 now (last ts)"
  define w where "w = rollingWindow now ts"
  have w: "(let stamps1 = (case (if ts = [] then None else Some (last ts)) of
                       None \<Rightarrow> ts
                     | Some l \<Rightarrow> if l \<noteq> 0 \<and> sub64 now l > 2000 then [] else ts);
                stamps2 = stamps1 @ [now]
            in if length stamps2 > 5 then tl stamps2 else stamps2) = w"
  proof (cases cleared)
    case True
    then show ?thesis unfolding w_def rollingWindow_def cleared_def Let_def by simp
  next
    case False
    then have k: "(case (if ts = [] then None else Some (last ts)) of
                       None \<Rightarrow> ts
                     | Some l \<Rightarrow> if l \<noteq> 0 \<and> sub64 now l > 2000 then [] else ts) = ts"
      unfolding cleared_def by auto
    have len: "length ts \<le> 5" using assms unfolding ts_def .
    have nc: "\<not> (ts \<noteq> [] \<and> last ts \<noteq> 0 \<and> 2000 < sub64 now (last ts))"
      using False unfolding cleared_def .
    show ?thesis
      unfolding Let_def k shifted_window [OF len] w_def rollingWindow_def if_not_P [OF nc] ..
  qed
  have two: "(1 < length w) = (2 \<le> length w)" by auto
  show ?thesis
    unfolding handleMetronomeTap_def ts_def [symmetric]
    using w unfolding Let_def w_def [symmetric]
    by (simp add: averageInterval_meanInterval tappedBpm_def two)
qed

lemma rollingWindow_length: "length (rollingWindow now ts) \<le> 5"
proof -
  have "length (drop (length (ts @ [now]) - 5) (ts @ [now])) \<le> 5"
    unfolding length_drop by arith
  then show ?thesis unfolding rollingWindow_def by (simp only: list.size split: if_splits) simp
qed

lemma handleMetronomeTap_length:
  "length (tapTempoTimestamps m) \<le> 5 \<Longrightarrow> length (tapTempoTimestamps (handleMetronomeTap now m)) \<le> 5"
  by (simp add: handleMetronomeTap_spec rollingWindow_length)

lemma tapAt_length:
  "length (tapTempoTimestamps m) \<le> 5 \<Longrightarrow> length (tapTempoTimestamps (tapAt nows m)) \<le> 5"
proof (induction nows arbitrary: m)
  case Nil
  then show ?case by (simp add: tapAt_def)
next
  case (Cons t ts)
  from Cons.IH [OF handleMetronomeTap_length [OF Cons.prems]] show ?case by (simp add: tapAt_def)
qed

lemma three_taps:
  "tapAt [t, t + 500, t + 1000] \<lparr> tapTempoTimestamps = [], metronomeBpm = b \<rparr> =
     \<lparr> tapTempoTimestamps = [t, t + 500, t + 1000], metronomeBpm = 120 \<rparr>"
proof -
  have one: "handleMetronomeTap t \<lparr> tapTempoTimestamps = [], metronomeBpm = b \<rparr>
      = \<lparr> tapTempoTimestamps = [t], metronomeBpm = b \<rparr>"
    by (simp add: handleMetronomeTap_spec rollingWindow_def tappedBpm_def)
  have two: "handleMetronomeTap (t + 500) \<lparr> tapTempoTimestamps = [t], metronomeBpm = b \<rparr>
      = \<lparr> tapTempoTimestamps = [t, t + 500], metronomeBpm = 120 \<rparr>"
    by (simp add: handleMetronomeTap_spec rollingWindow_def tappedBpm_def meanInterval_def
        sub64_def add64_def div64_def toDouble_numeral_small Math_round_def)
  have three: "handleMetronomeTap (t + 1000) \<lparr> tapTempoTimestamps = [t, t + 500], metronomeBpm = 120 \<rparr>
      = \<lparr> tapTempoTimestamps = [t, t + 500, t + 1000], metronomeBpm = 120 \<rparr>"
    by (simp add: handleMetronomeTap_spec rollingWindow_def tappedBpm_def meanInterval_def
        sub64_def add64_def div64_def toDouble_numeral_small Math_round_def)
  show ?thesis by (simp add: tapAt_def one two three)
qed

text \<open>
  The rounding of doubles decides the tempo at a tie. For the stamps nearest to 1000.4,
  1960.4 and 2920.4 the code adds \<open>960 + 2^-43\<close> and \<open>960\<close> to \<open>1920\<close>, takes the mean
  960 and sets the tempo to \<open>Math.round(62.5) = 63\<close>; the exact mean of the same stamps
  is above 960 and would give 62.
\<close>

lemma tap_rounding_example:
  "handleMetronomeTap stampC \<lparr> tapTempoTimestamps = [stampA, stampB], metronomeBpm = b \<rparr> =
     \<lparr> tapTempoTimestamps = [stampA, stampB, stampC], metronomeBpm = 63 \<rparr> \<and>
   Math_round (60000 / ((stampC - stampA) / 2)) = 62"
proof -
  define iv :: real where "iv = of_int 8444249301319681 / 2 ^ 43"
  have x: "toDouble iv = iv"
    unfolding iv_def by (rule toDouble_dyadic) simp_all
  have "stampB - stampA = iv" by (simp add: stampA_def stampB_def iv_def)
  then have i1: "sub64 stampB stampA = iv"
    unfolding sub64_def by (simp only: x)
  have "stampC - stampB = 960" by (simp add: stampB_def stampC_def)
  then have i2: "sub64 stampC stampB = 960"
    unfolding sub64_def by (simp add: toDouble_numeral_small)
  have s1: "add64 0 iv = iv"
    unfolding add64_def add_0 by (rule x)
  define y :: real where "y = iv + 960"
  have b: "2 powr of_int 10 \<le> \<bar>y\<bar>" "\<bar>y\<bar> < 2 powr of_int (10 + 1)"
    unfolding y_def iv_def by simp_all
  have q: "y / 2 powr of_int (10 - 52) = 8444249301319680 + 1 / 2"
    unfolding y_def iv_def by (simp add: powr_neg_numeral)
  have r: "roundTiesToEven (8444249301319680 + 1 / 2) = 8444249301319680"
    by (simp add: roundTiesToEven_def Let_def)
  have "toDouble y = of_int 8444249301319680 * 2 powr of_int (10 - 52)"
    using toDouble_in_binade [OF b] unfolding q r by simp
  then have "toDouble y = 1920" by (simp add: powr_neg_numeral)
  then have s2: "add64 iv 960 = 1920"
    unfolding add64_def y_def .
  have gap: "\<not> 2000 < sub64 stampC stampB" unfolding i2 by simp
  have avg: "meanInterval [stampA, stampB, stampC] = 960"
    by (simp add: meanInterval_def i1 i2 s1 s2 div64_def toDouble_numeral_small)
  have w: "rollingWindow stampC [stampA, stampB] = [stampA, stampB, stampC]"
    using gap by (simp add: rollingWindow_def)
  have "toDouble (of_int 125 / 2 ^ 1) = of_int 125 / 2 ^ 1"
    by (rule toDouble_dyadic) simp_all
  then have bpm: "div64 60000 960 = 125 / 2"
    unfolding div64_def by simp
  have "handleMetronomeTap stampC \<lparr> tapTempoTimestamps = [stampA, stampB], metronomeBpm = b \<rparr> =
     \<lparr> tapTempoTimestamps = [stampA, stampB, stampC], metronomeBpm = 63 \<rparr>"
    by (simp add: handleMetronomeTap_spec w tappedBpm_def avg bpm Math_round_def)
  moreover have "Math_round (60000 / ((stampC - stampA) / 2)) = 62"
    by (simp add: stampA_def stampC_def Math_round_def)
  ultimately show ?thesis by simp
qed

text \<open>
  Claim C7. In every state whose window holds at most 5 stamps, and so in every state
  reached by taps from an empty window, a tap leaves the rolling window: the new stamp alone
  when the gap to the previous stamp is over 2000 ms, otherwise the last five of the old
  stamps and the new one; the window never holds more than 5 stamps. With two or more
  stamps in that window, and a positive mean interval, the tempo becomes 60000 divided by
  the mean inter-tap interval, rounded and clamped to [40, 240]; otherwise the tempo is not
  touched. A tap after a gap of over 2000 ms behaves as a first tap. Three taps 500 ms
  apart give 120, whatever the tempo was before.
  (\<open>performance.now()\<close> is positive in a running page; a previous stamp that is the
  number 0 is falsy and does not clear the window.)
\<close>

theorem handleMetronomeTap_tap_tempo:
  assumes "length (tapTempoTimestamps m) \<le> 5"
  shows "handleMetronomeTap now m =
           \<lparr> tapTempoTimestamps = rollingWindow now (tapTempoTimestamps m),
             metronomeBpm = tappedBpm (rollingWindow now (tapTempoTimestamps m)) (metronomeBpm m) \<rparr> \<and>
         length (tapTempoTimestamps (handleMetronomeTap now m)) \<le> 5 \<and>
         length (tapTempoTimestamps (tapAt nows \<lparr> tapTempoTimestamps = [], metronomeBpm = b \<rparr>)) \<le> 5 \<and>
         (tapTempoTimestamps m \<noteq> [] \<and> last (tapTempoTimestamps m) \<noteq> 0
            \<and> 2000 < sub64 now (last (tapTempoTimestamps m)) \<longrightarrow>
          handleMetronomeTap now m = handleMetronomeTap now (m\<lparr> tapTempoTimestamps := [] \<rparr>) \<and>
          handleMetronomeTap now m = \<lparr> tapTempoTimestamps = [now], metronomeBpm = metronomeBpm m \<rparr>) \<and>
         tapAt [t, t + 500, t + 1000] \<lparr> tapTempoTimestamps = [], metronomeBpm = b \<rparr> =
           \<lparr> tapTempoTimestamps = [t, t + 500, t + 1000], metronomeBpm = 120 \<rparr>"
proof (intro conjI impI)
  show "handleMetronomeTap now m =
           \<lparr> tapTempoTimestamps = rollingWindow now (tapTempoTimestamps m),
             metronomeBpm = tappedBpm (rollingWindow now (tapTempoTimestamps m)) (metronomeBpm m) \<rparr>"
    using assms by (rule handleMetronomeTap_spec)
  show "length (tapTempoTimestamps (handleMetronomeTap now m)) \<le> 5"
    using assms by (rule handleMetronomeTap_length)
  show "length (tapTempoTimestamps (tapAt nows \<lparr> tapTempoTimestamps = [], metronomeBpm = b \<rparr>)) \<le> 5"
    by (rule tapAt_length) simp
  show "tapAt [t, t + 500, t + 1000] \<lparr> tapTempoTimestamps = [], metronomeBpm = b \<rparr> =
           \<lparr> tapTempoTimestamps = [t, t + 500, t + 1000], metronomeBpm = 120 \<rparr>"
    by (rule three_taps)
next
  assume gap: "tapTempoTimestamps m \<noteq> [] \<and> last (tapTempoTimestamps m) \<noteq> 0
      \<and> 2000 < sub64 now (last (tapTempoTimestamps m))"
  have e: "length (tapTempoTimestamps (m\<lparr> tapTempoTimestamps := [] \<rparr>)) \<le> 5" by simp
  have a: "handleMetronomeTap now m = \<lparr> tapTempoTimestamps = [now], metronomeBpm = metronomeBpm m \<rparr>"
    using gap by (simp add: handleMetronomeTap_spec [OF assms] rollingWindow_def tappedBpm_def)
  have b: "handleMetronomeTap now (m\<lparr> tapTempoTimestamps := [] \<rparr>)
      = \<lparr> tapTempoTimestamps = [now], metronomeBpm = metronomeBpm m \<rparr>"
    by (simp add: handleMetronomeTap_spec [OF e] rollingWindow_def tappedBpm_def)
  show "handleMetronomeTap now m = handleMetronomeTap now (m\<lparr> tapTempoTimestamps := [] \<rparr>)"
    unfolding a b ..
  show "handleMetronomeTap now m = \<lparr> tapTempoTimestamps = [now], metronomeBpm = metronomeBpm m \<rparr>"
    by (rule a)
qed

theorem handleMetronomeTap_tap_tempo_witness:
  "length (tapTempoTimestamps \<lparr> tapTempoTimestamps = [1000, 1500, 2000], metronomeBpm = 120 \<rparr>) \<le> 5 \<and>
   2000 < sub64 4500 (last [1000, 1500, 2000]) \<and>
   handleMetronomeTap 4500 \<lparr> tapTempoTimestamps = [1000, 1500, 2000], metronomeBpm = 120 \<rparr> =
     \<lparr> tapTempoTimestamps = [4500], metronomeBpm = 120 \<rparr> \<and>
   handleMetronomeTap 1400 \<lparr> tapTempoTimestamps = [1000], metronomeBpm = 90 \<rparr> =
     \<lparr> tapTempoTimestamps = [1000, 1400], metronomeBpm = 150 \<rparr> \<and>
   handleMetronomeTap 3500 \<lparr> tapTempoTimestamps = [1000, 1500, 2000, 2500, 3000], metronomeBpm = 90 \<rparr> =
     \<lparr> tapTempoTimestamps = [1500, 2000, 2500, 3000, 3500], metronomeBpm = 120 \<rparr>"
proof -
  let ?m = "\<lparr> tapTempoTimestamps = [1000, 1500, 2000], metronomeBpm = 120 \<rparr>"
  let ?k = "\<lparr> tapTempoTimestamps = [1000], metronomeBpm = 90 \<rparr>"
  let ?f = "\<lparr> tapTempoTimestamps = [1000, 1500, 2000, 2500, 3000], metronomeBpm = 90 \<rparr>"
  have lm: "length (tapTempoTimestamps ?m) \<le> 5" by simp
  have lk: "length (tapTempoTimestamps ?k) \<le> 5" by simp
  have lf: "length (tapTempoTimestamps ?f) \<le> 5" by simp
  have gap: "2000 < sub64 4500 (last [1000, 1500, 2000])"
    by (simp add: sub64_def toDouble_numeral_small)
  then have hyp: "tapTempoTimestamps ?m \<noteq> [] \<and> last (tapTempoTimestamps ?m) \<noteq> 0
      \<and> 2000 < sub64 4500 (last (tapTempoTimestamps ?m))" by simp
  from handleMetronomeTap_tap_tempo [OF lm, of 4500 "[]" 0 0] hyp
  have a: "handleMetronomeTap 4500 ?m = \<lparr> tapTempoTimestamps = [4500], metronomeBpm = metronomeBpm ?m \<rparr>"
    by blast
  from handleMetronomeTap_tap_tempo [OF lk, of 1400 "[]" 0 0]
  have "handleMetronomeTap 1400 ?k =
      \<lparr> tapTempoTimestamps = rollingWindow 1400 (tapTempoTimestamps ?k),
        metronomeBpm = tappedBpm (rollingWindow 1400 (tapTempoTimestamps ?k)) (metronomeBpm ?k) \<rparr>"
    by blast
  then have b: "handleMetronomeTap 1400 ?k = \<lparr> tapTempoTimestamps = [1000, 1400], metronomeBpm = 150 \<rparr>"
    by (simp add: rollingWindow_def tappedBpm_def meanInterval_def sub64_def add64_def div64_def
        toDouble_numeral_small Math_round_def)
  from handleMetronomeTap_tap_tempo [OF lf, of 3500 "[]" 0 0]
  have "handleMetronomeTap 3500 ?f =
      \<lparr> tapTempoTimestamps = rollingWindow 3500 (tapTempoTimestamps ?f),
        metronomeBpm = tappedBpm (rollingWindow 3500 (tapTempoTimestamps ?f)) (metronomeBpm ?f) \<rparr>"
    by blast
  then have c: "handleMetronomeTap 3500 ?f =
      \<lparr> tapTempoTimestamps = [1500, 2000, 2500, 3000, 3500], metronomeBpm = 120 \<rparr>"
    by (simp add: rollingWindow_def tappedBpm_def meanInterval_def sub64_def add64_def div64_def
        toDouble_numeral_small Math_round_def)
  from a have a': "handleMetronomeTap 4500 ?m = \<lparr> tapTempoTimestamps = [4500], metronomeBpm = 120 \<rparr>"
    by simp
  from lm gap a' b c show ?thesis by (intro conjI)
qed

subsection \<open>MIDI binding layer\<close>

lemma map_of_filter_values:
  "distinct (map fst xs) \<Longrightarrow>
   map_of (filter (\<lambda>(k, v). P v) xs) k =
     (case map_of xs k of None \<Rightarrow> None | Some v \<Rightarrow> if P v then Some v else None)"
proof (induction xs)
  case Nil
  show ?case by simp
next
  case (Cons p ps)
  obtain a b where p: "p = (a, b)" by (cases p)
  from Cons.prems p have nin: "a \<notin> fst ` set ps" and d: "distinct (map fst ps)" by auto
  from nin have none: "map_of ps a = None" by (simp add: map_of_eq_None_iff)
  show ?case using Cons.IH [OF d] none by (auto simp: p split: option.splits)
qed

lemma distinct_filter_keys: "distinct (map fst xs) \<Longrightarrow> distinct (map fst (filter P xs))"
  by (induction xs) auto

lemma distinct_learnMapping:
  "distinct (map fst m) \<Longrightarrow> distinct (map fst (learnMapping c msg m))"
  unfolding learnMapping_def by (intro distinct_update distinct_filter_keys)

lemma map_of_learnMapping:
  "distinct (map fst m) \<Longrightarrow>
   map_of (learnMapping c msg m) k =
     (if k = c then Some msg
      else case map_of m k of None \<Rightarrow> None | Some v \<Rightarrow> if v \<noteq> msg then Some v else None)"
  unfolding learnMapping_def by (simp add: update_conv' map_of_filter_values)

lemma reverseOf_snoc:
  "reverseOf (xs @ [(c, msg)]) = (if msg \<noteq> [] then (reverseOf xs)(msg \<mapsto> c) else reverseOf xs)"
  by (simp add: reverseOf_def)

lemma reverseOf_Nil: "reverseOf [] = Map.empty"
  by (simp add: reverseOf_def)

lemma reverseOf_sound: "reverseOf m msg = Some c \<Longrightarrow> (c, msg) \<in> set m \<and> msg \<noteq> []"
proof (induction m rule: rev_induct)
  case Nil
  then show ?case by (simp add: reverseOf_Nil)
next
  case (snoc p ps)
  obtain a b where p: "p = (a, b)" by (cases p)
  from snoc show ?case by (auto simp: p reverseOf_snoc split: if_splits)
qed

lemma reverseOf_complete: "(c, msg) \<in> set m \<Longrightarrow> msg \<noteq> [] \<Longrightarrow> \<exists>c'. reverseOf m msg = Some c'"
proof (induction m rule: rev_induct)
  case Nil
  then show ?case by simp
next
  case (snoc p ps)
  obtain a b where p: "p = (a, b)" by (cases p)
  from snoc show ?case by (auto simp: p reverseOf_snoc split: if_splits)
qed

lemma one_learn:
  assumes d: "distinct (map fst m)" and one: "oneControlPerMessage m"
  shows "oneControlPerMessage (learnMapping c msg m)"
proof -
  have d': "distinct (map fst (learnMapping c msg m))" using d by (rule distinct_learnMapping)
  { fix k v k' assume a: "(k, v) \<in> set (learnMapping c msg m)" "(k', v) \<in> set (learnMapping c msg m)"
    from a d' have 1: "map_of (learnMapping c msg m) k = Some v" "map_of (learnMapping c msg m) k' = Some v" by auto
    have "k = k'"
    proof (cases "k = c \<or> k' = c")
      case True
      with 1 show ?thesis by (auto simp: map_of_learnMapping [OF d] split: if_splits option.splits)
    next
      case False
      with 1 have "map_of m k = Some v" "map_of m k' = Some v"
        by (auto simp: map_of_learnMapping [OF d] split: if_splits option.splits)
      then have "(k, v) \<in> set m" "(k', v) \<in> set m" by (auto dest: map_of_SomeD)
      with one show ?thesis unfolding oneControlPerMessage_def by blast
    qed }
  then show ?thesis unfolding oneControlPerMessage_def by blast
qed


lemma reverseOf_no_stale:
  assumes "distinct (map fst m)" and "reverseOf m msg = Some c"
  shows "map_of m c = Some msg"
  using reverseOf_sound [OF assms(2)] assms(1) by simp

lemma reverseOf_finds:
  assumes d: "distinct (map fst m)" and one: "oneControlPerMessage m"
      and "msg \<noteq> []" and "map_of m c = Some msg"
  shows "reverseOf m msg = Some c"
proof -
  from assms(4) have mem: "(c, msg) \<in> set m" by (rule map_of_SomeD)
  from reverseOf_complete [OF mem assms(3)] obtain c' where c': "reverseOf m msg = Some c'" ..
  from reverseOf_sound [OF c'] have "(c', msg) \<in> set m" by simp
  with mem one have "c' = c" unfolding oneControlPerMessage_def by blast
  with c' show ?thesis by simp
qed

text \<open>
  The forward mapping, and the index when it is rebuilt. For a mapping \<open>m\<close> (an object,
  so with distinct keys): after learning control X to message M and then control Y to M, X
  is unmapped and Y is mapped to M; after a learn only the learnt control is mapped to the
  message, and learning keeps "at most one control per message". The reverse index built
  from a mapping has no stale entry: every entry \<open>msg \<mapsto> c\<close> of it is an entry
  \<open>c \<mapsto> msg\<close> of the mapping, so after the remapping, or after deleting X from the
  mapping, nothing points to X; and when the mapping has one control per message every
  non-empty message of it is found. The effect that rebuilds the index is idempotent when
  the mapping is stored. In learn mode \<open>handleMidiMessage\<close> applies \<open>learnMapping\<close>
  and leaves learn mode.
\<close>

lemma learnMapping_and_rebuilt_index:
  assumes "distinct (map fst m)"
  shows "(X \<noteq> Y \<longrightarrow> map_of (learnMapping Y M (learnMapping X M m)) X = None) \<and>
         map_of (learnMapping Y M (learnMapping X M m)) Y = Some M \<and>
         (\<forall>c. map_of (learnMapping Y M m) c = Some M \<longrightarrow> c = Y) \<and>
         (oneControlPerMessage m \<longrightarrow> oneControlPerMessage (learnMapping Y M m)) \<and>
         distinct (map fst (learnMapping Y M m)) \<and>
         (\<forall>msg c. reverseOf m msg = Some c \<longrightarrow> map_of m c = Some msg) \<and>
         (X \<noteq> Y \<longrightarrow> (\<forall>msg. reverseOf (learnMapping Y M (learnMapping X M m)) msg \<noteq> Some X)) \<and>
         (\<forall>msg. reverseOf (AList.delete X m) msg \<noteq> Some X) \<and>
         (oneControlPerMessage m \<longrightarrow>
            (\<forall>msg c. msg \<noteq> [] \<and> map_of m c = Some msg \<longrightarrow> reverseOf m msg = Some c)) \<and>
         persistMidiMapping True (persistMidiMapping True st) = persistMidiMapping True st \<and>
         reverseMidiMapping (persistMidiMapping True st) = reverseOf (midiMapping st) \<and>
         (isMidiLearning st = Some Y \<and> Y \<noteq> [] \<and> midiMessageId command data1 data2 = Some M \<longrightarrow>
            fst (handleMidiMessage command data1 data2 st) =
              st\<lparr> midiMapping := learnMapping Y M (midiMapping st), isMidiLearning := None \<rparr>)"
proof -
  note d = assms
  have dX: "distinct (map fst (learnMapping X M m))" using d by (rule distinct_learnMapping)
  have dXY: "distinct (map fst (learnMapping Y M (learnMapping X M m)))"
    using dX by (rule distinct_learnMapping)
  have unmapped: "X \<noteq> Y \<Longrightarrow> map_of (learnMapping Y M (learnMapping X M m)) X = None"
    by (simp add: map_of_learnMapping [OF dX] map_of_learnMapping [OF d])
  have mapped: "map_of (learnMapping Y M (learnMapping X M m)) Y = Some M"
    by (simp add: map_of_learnMapping [OF dX])
  have only: "\<forall>c. map_of (learnMapping Y M m) c = Some M \<longrightarrow> c = Y"
    by (auto simp: map_of_learnMapping [OF d] split: if_splits option.splits)
  have stale: "X \<noteq> Y \<Longrightarrow> reverseOf (learnMapping Y M (learnMapping X M m)) msg \<noteq> Some X" for msg
  proof
    assume "X \<noteq> Y" and "reverseOf (learnMapping Y M (learnMapping X M m)) msg = Some X"
    from reverseOf_no_stale [OF dXY this(2)] unmapped [OF this(1)] show False by simp
  qed
  have ddel: "distinct (map fst (AList.delete X m))" using d by (rule distinct_delete)
  have del: "reverseOf (AList.delete X m) msg \<noteq> Some X" for msg
  proof
    assume "reverseOf (AList.delete X m) msg = Some X"
    from reverseOf_no_stale [OF ddel this] show False by (simp add: delete_conv')
  qed
  have one': "oneControlPerMessage m \<longrightarrow> oneControlPerMessage (learnMapping Y M m)"
    using one_learn [OF d] by blast
  have sound: "\<forall>msg c. reverseOf m msg = Some c \<longrightarrow> map_of m c = Some msg"
    using reverseOf_no_stale [OF d] by blast
  have finds: "oneControlPerMessage m \<longrightarrow>
            (\<forall>msg c. msg \<noteq> [] \<and> map_of m c = Some msg \<longrightarrow> reverseOf m msg = Some c)"
    using reverseOf_finds [OF d] by blast
  have idem: "persistMidiMapping True (persistMidiMapping True st) = persistMidiMapping True st"
    by (simp add: persistMidiMapping_def)
  have rebuilt: "reverseMidiMapping (persistMidiMapping True st) = reverseOf (midiMapping st)"
    by (simp add: persistMidiMapping_def)
  from unmapped have c1: "X \<noteq> Y \<longrightarrow> map_of (learnMapping Y M (learnMapping X M m)) X = None"
    by blast
  from stale have c7: "X \<noteq> Y \<longrightarrow> (\<forall>msg. reverseOf (learnMapping Y M (learnMapping X M m)) msg \<noteq> Some X)"
    by blast
  from del have c8: "\<forall>msg. reverseOf (AList.delete X m) msg \<noteq> Some X"
    by blast
  have learn: "isMidiLearning st = Some Y \<and> Y \<noteq> [] \<and> midiMessageId command data1 data2 = Some M \<longrightarrow>
            fst (handleMidiMessage command data1 data2 st) =
              st\<lparr> midiMapping := learnMapping Y M (midiMapping st), isMidiLearning := None \<rparr>"
    by (simp add: handleMidiMessage_def)
  from c1 mapped only one' distinct_learnMapping [OF d] sound c7 c8 finds idem rebuilt learn
  show ?thesis by (intro conjI)
qed

lemma midiLearningPlay_state:
  "midiLearningPlay =
     \<lparr> midiMapping = [(''crossfader'', ''cc_1_7'')],
       reverseMidiMapping = reverseOf [(''crossfader'', ''cc_1_7'')],
       isMidiLearning = Some ''deckA_play'' \<rparr>"
  by (simp add: midiLearningPlay_def midiLearningCrossfader_def handleMidiMessage_def
      midiMessageId_def showNat.simps persistMidiMapping_def learnMapping_def)

text \<open>
  Claim C5 (the code departs from it). The forward mapping does keep one control for each
  message (\<open>learnMapping_and_rebuilt_index\<close>), and so does the index whenever it is
  rebuilt. But the rebuild sits in the \<open>try\<close> block after \<open>localStorage.setItem\<close>: when
  storing throws, the index is left as it was. With \<open>crossfader\<close> learnt to control
  change 7 and the index built, learning \<open>deckA_play\<close> to the same message while storing
  fails leaves the mapping with \<open>deckA_play\<close> alone, unmaps \<open>crossfader\<close>, and keeps the
  stale entry of the index: the next control change 7 is dispatched to \<open>crossfader\<close>.
  When storing succeeds the entry is replaced and the message goes to \<open>deckA_play\<close>.
\<close>

theorem midi_reverse_index_stale_when_store_fails:
  "midiMapping (midiRemapped False) = [(''deckA_play'', ''cc_1_7'')] \<and>
   map_of (midiMapping (midiRemapped False)) ''crossfader'' = None \<and>
   reverseMidiMapping (midiRemapped False) ''cc_1_7'' = Some ''crossfader'' \<and>
   reverseMidiMapping (midiRemapped False) \<noteq> reverseOf (midiMapping (midiRemapped False)) \<and>
   snd (handleMidiMessage 176 7 64 (midiRemapped False)) = Some ''crossfader'' \<and>
   midiMapping (midiRemapped True) = [(''deckA_play'', ''cc_1_7'')] \<and>
   reverseMidiMapping (midiRemapped True) ''cc_1_7'' = Some ''deckA_play'' \<and>
   snd (handleMidiMessage 176 7 64 (midiRemapped True)) = Some ''deckA_play''"
proof -
  have id: "midiMessageId 176 7 64 = Some ''cc_1_7''"
    by (simp add: midiMessageId_def showNat.simps)
  have f: "midiRemapped False =
      \<lparr> midiMapping = [(''deckA_play'', ''cc_1_7'')],
        reverseMidiMapping = reverseOf [(''crossfader'', ''cc_1_7'')],
        isMidiLearning = None \<rparr>"
    by (simp add: midiRemapped_def midiLearningPlay_state handleMidiMessage_def id
        persistMidiMapping_def learnMapping_def)
  have t: "midiRemapped True =
      \<lparr> midiMapping = [(''deckA_play'', ''cc_1_7'')],
        reverseMidiMapping = reverseOf [(''deckA_play'', ''cc_1_7'')],
        isMidiLearning = None \<rparr>"
    by (simp add: midiRemapped_def midiLearningPlay_state handleMidiMessage_def id
        persistMidiMapping_def learnMapping_def)
  have old: "reverseOf [(''crossfader'', ''cc_1_7'')] ''cc_1_7'' = Some ''crossfader''"
    by (simp add: reverseOf_def)
  have new: "reverseOf [(''deckA_play'', ''cc_1_7'')] ''cc_1_7'' = Some ''deckA_play''"
    by (simp add: reverseOf_def)
  have differ: "reverseOf [(''crossfader'', ''cc_1_7'')] \<noteq> reverseOf [(''deckA_play'', ''cc_1_7'')]"
  proof
    assume "reverseOf [(''crossfader'', ''cc_1_7'')] = reverseOf [(''deckA_play'', ''cc_1_7'')]"
    then have "reverseOf [(''crossfader'', ''cc_1_7'')] ''cc_1_7''
        = reverseOf [(''deckA_play'', ''cc_1_7'')] ''cc_1_7''" by simp
    then show False unfolding old new by simp
  qed
  have c1: "midiMapping (midiRemapped False) = [(''deckA_play'', ''cc_1_7'')]"
    unfolding f by simp
  have c2: "map_of (midiMapping (midiRemapped False)) ''crossfader'' = None"
    unfolding f by simp
  have c3: "reverseMidiMapping (midiRemapped False) ''cc_1_7'' = Some ''crossfader''"
    unfolding f by (simp add: old)
  have c4: "reverseMidiMapping (midiRemapped False) \<noteq> reverseOf (midiMapping (midiRemapped False))"
    unfolding f using differ by simp
  have c5: "snd (handleMidiMessage 176 7 64 (midiRemapped False)) = Some ''crossfader''"
    unfolding f by (simp add: handleMidiMessage_def id old)
  have c6: "midiMapping (midiRemapped True) = [(''deckA_play'', ''cc_1_7'')]"
    unfolding t by simp
  have c7: "reverseMidiMapping (midiRemapped True) ''cc_1_7'' = Some ''deckA_play''"
    unfolding t by (simp add: new)
  have c8: "snd (handleMidiMessage 176 7 64 (midiRemapped True)) = Some ''deckA_play''"
    unfolding t by (simp add: handleMidiMessage_def id new)
  from c1 c2 c3 c4 c5 c6 c7 c8 show ?thesis by (intro conjI)
qed

subsection \<open>Beat-kit store\<close>

lemma placeItem_map:
  "distinct (map fst st) \<Longrightarrow>
   placeItem st it = map (\<lambda>(c, slots). (c, if category it = c then arraySet slots (index it) (Some (beat it)) else slots)) st"
proof (induction st)
  case Nil
  show ?case by (simp add: placeItem_def)
next
  case (Cons p ps)
  obtain c sl where p: "p = (c, sl)" by (cases p)
  from Cons.prems p have nin: "c \<notin> fst ` set ps" and d: "distinct (map fst ps)" by auto
  show ?case
  proof (cases "category it = c")
    case True
    have "map (\<lambda>(c', slots). (c', if category it = c' then arraySet slots (index it) (Some (beat it)) else slots)) ps = ps"
      using nin True by (intro map_idI) (auto simp: image_iff)
    then show ?thesis using True by (simp add: placeItem_def p)
  next
    case False
    with Cons.IH [OF d] show ?thesis
      by (auto simp: placeItem_def p split: option.splits)
  qed
qed

lemma fst_placeItem: "distinct (map fst st) \<Longrightarrow> map fst (placeItem st it) = map fst st"
  by (simp add: placeItem_map case_prod_beta cong: map_cong)

lemma foldl_placeItem:
  "distinct (map fst st) \<Longrightarrow>
   foldl placeItem st items = map (\<lambda>(c, slots). (c, slotsAfter items c slots)) st"
proof (induction items arbitrary: st)
  case Nil
  show ?case by (simp add: slotsAfter_def)
next
  case (Cons it its)
  have d: "distinct (map fst (placeItem st it))" using Cons.prems by (simp add: fst_placeItem)
  show ?case
    using Cons.IH [OF d] Cons.prems
    by (simp add: placeItem_map slotsAfter_def case_prod_beta)
qed


lemma slotsAfter_snoc:
  "slotsAfter (items @ [it]) cat slots =
     (if category it = cat then arraySet (slotsAfter items cat slots) (index it) (Some (beat it))
      else slotsAfter items cat slots)"
  by (simp add: slotsAfter_def)

lemma slotsAfter_length:
  "\<forall>it \<in> set items. category it = cat \<longrightarrow> index it < length slots \<Longrightarrow>
   length (slotsAfter items cat slots) = length slots"
proof (induction items rule: rev_induct)
  case Nil
  show ?case by (simp add: slotsAfter_def)
next
  case (snoc it its)
  then show ?case by (simp add: slotsAfter_snoc arraySet_def)
qed

lemma slotsAfter_untouched:
  assumes "\<forall>it \<in> set items. category it = cat \<longrightarrow> index it < length slots"
      and "i < length slots"
      and "\<forall>it \<in> set items. category it = cat \<longrightarrow> index it \<noteq> i"
  shows "slotsAfter items cat slots ! i = slots ! i"
  using assms
proof (induction items rule: rev_induct)
  case Nil
  show ?case by (simp add: slotsAfter_def)
next
  case (snoc it its)
  then have len: "length (slotsAfter its cat slots) = length slots"
    by (intro slotsAfter_length) simp
  from snoc show ?case by (simp add: slotsAfter_snoc arraySet_def len)
qed

lemma slotsAfter_written:
  assumes "\<forall>it \<in> set items. category it = cat \<longrightarrow> index it < length slots"
      and "i < length slots"
      and "\<forall>it \<in> set items. category it = cat \<and> index it = i \<longrightarrow> beat it = b"
      and "\<exists>it \<in> set items. category it = cat \<and> index it = i"
  shows "slotsAfter items cat slots ! i = Some b"
  using assms
proof (induction items rule: rev_induct)
  case Nil
  then show ?case by simp
next
  case (snoc it its)
  from snoc.prems(1) have bounds: "\<forall>it \<in> set its. category it = cat \<longrightarrow> index it < length slots"
    by simp
  then have len: "length (slotsAfter its cat slots) = length slots"
    by (rule slotsAfter_length)
  show ?case
  proof (cases "category it = cat \<and> index it = i")
    case True
    with snoc.prems(3) have "beat it = b" by simp
    with True snoc.prems(2) show ?thesis by (simp add: slotsAfter_snoc arraySet_def len)
  next
    case False
    with snoc.prems(4) have ex: "\<exists>it \<in> set its. category it = cat \<and> index it = i" by auto
    from snoc.prems(3) have all: "\<forall>it \<in> set its. category it = cat \<and> index it = i \<longrightarrow> beat it = b"
      by simp
    have ih: "slotsAfter its cat slots ! i = Some b"
      using snoc.IH [OF bounds snoc.prems(2) all ex] .
    from False snoc.prems(1) show ?thesis
      by (auto simp: slotsAfter_snoc arraySet_def len ih)
  qed
qed

lemma in_addedItems:
  "it \<in> set (addedItems cat slots) \<longleftrightarrow>
     (\<exists>i b. i < length slots \<and> slots ! i = Some b \<and>
            it = \<lparr> item_id = cat @ ''-'' @ showNat i, category = cat, index = i,
                   beat = storableBeat b \<rparr>)"
  (is "?L \<longleftrightarrow> ?R")
proof
  assume ?L
  then obtain i slot where en: "(i, slot) \<in> set (enumerate 0 slots)"
    and it: "it \<in> set (case slot of None \<Rightarrow> []
                | Some b \<Rightarrow> [\<lparr> item_id = cat @ ''-'' @ showNat i, category = cat,
                                   index = i, beat = storableBeat b \<rparr>])"
    unfolding addedItems_def by auto
  from it obtain b where "slot = Some b" by (cases slot) auto
  with en it show ?R by (auto simp: in_set_enumerate_eq)
next
  assume ?R
  then obtain i b where i: "i < length slots" and b: "slots ! i = Some b"
    and it: "it = \<lparr> item_id = cat @ ''-'' @ showNat i, category = cat, index = i,
                   beat = storableBeat b \<rparr>"
    by blast
  from i b have "(i, Some b) \<in> set (enumerate 0 slots)"
    by (simp add: in_set_enumerate_eq)
  then show ?L
    unfolding addedItems_def using it
    by (auto intro!: bexI [where x = "(i, Some b)"])
qed

lemma in_saved:
  "it \<in> set (snd (saveBeatsToDB None beats old)) \<longleftrightarrow>
     (\<exists>cat slots. (cat, slots) \<in> set beats \<and> it \<in> set (addedItems cat slots))"
  unfolding saveBeatsToDB_def by auto

lemma saved_category:
  assumes d: "distinct (map fst beats)" and mem: "(cat, slots) \<in> set beats"
  shows "it \<in> set (snd (saveBeatsToDB None beats old)) \<and> category it = cat \<longleftrightarrow>
         (\<exists>i b. i < length slots \<and> slots ! i = Some b \<and>
            it = \<lparr> item_id = cat @ ''-'' @ showNat i, category = cat, index = i,
                   beat = storableBeat b \<rparr>)"
  (is "?L \<longleftrightarrow> ?R")
proof
  assume l: ?L
  then obtain cat' slots' where m': "(cat', slots') \<in> set beats" and a: "it \<in> set (addedItems cat' slots')"
    unfolding in_saved by blast
  from a have "category it = cat'" unfolding in_addedItems by auto
  with l have c: "cat' = cat" by simp
  with d mem m' have "slots' = slots" by (meson eq_key_imp_eq_value)
  with a c show ?R unfolding in_addedItems by simp
next
  assume r: ?R
  then have "it \<in> set (addedItems cat slots)" unfolding in_addedItems .
  with mem have "it \<in> set (snd (saveBeatsToDB None beats old))" unfolding in_saved by blast
  moreover from r have "category it = cat" by auto
  ultimately show ?L by simp
qed

lemma roundtrip_category:
  assumes d: "distinct (map fst beats)" and mem: "(cat, slots) \<in> set beats"
      and items: "set items = set (snd (saveBeatsToDB None beats old))"
  shows "slotsAfter items cat (replicate (length slots) None) = map (map_option storableBeat) slots"
proof (rule nth_equalityI)
  note sc = saved_category [OF d mem, of _ old]
  have tgt: "it \<in> set items \<and> category it = cat \<longleftrightarrow>
         (\<exists>i b. i < length slots \<and> slots ! i = Some b \<and>
            it = \<lparr> item_id = cat @ ''-'' @ showNat i, category = cat, index = i,
                   beat = storableBeat b \<rparr>)" for it
    unfolding items by (rule sc)
  have tgtD: "\<exists>i b. i < length slots \<and> slots ! i = Some b \<and> index it = i \<and> beat it = storableBeat b"
    if "it \<in> set items" "category it = cat" for it
  proof -
    from tgt [of it] that obtain i b where ib: "i < length slots" "slots ! i = Some b"
      and eq: "it = \<lparr> item_id = cat @ ''-'' @ showNat i, category = cat, index = i,
                   beat = storableBeat b \<rparr>"
      by blast
    have "index it = i" "beat it = storableBeat b" by (subst eq, simp)+
    with ib show ?thesis by blast
  qed
  have bounds: "\<forall>it \<in> set items. category it = cat \<longrightarrow> index it < length (replicate (length slots) (None :: Beat option))"
  proof (intro ballI impI)
    fix it assume "it \<in> set items" "category it = cat"
    from tgtD [OF this] show "index it < length (replicate (length slots) (None :: Beat option))" by auto
  qed
  show len: "length (slotsAfter items cat (replicate (length slots) None)) = length (map (map_option storableBeat) slots)"
    using slotsAfter_length [OF bounds] by simp
  fix i assume "i < length (slotsAfter items cat (replicate (length slots) None))"
  with len have i: "i < length slots" by simp
  then have i': "i < length (replicate (length slots) (None :: Beat option))" by simp
  show "slotsAfter items cat (replicate (length slots) None) ! i = map (map_option storableBeat) slots ! i"
  proof (cases "slots ! i")
    case None
    have "\<forall>it \<in> set items. category it = cat \<longrightarrow> index it \<noteq> i"
    proof (intro ballI impI)
      fix it assume "it \<in> set items" "category it = cat"
      from tgtD [OF this] None show "index it \<noteq> i" by auto
    qed
    from slotsAfter_untouched [OF bounds i' this] None i show ?thesis by simp
  next
    case (Some b)
    have all: "\<forall>it \<in> set items. category it = cat \<and> index it = i \<longrightarrow> beat it = storableBeat b"
    proof (intro ballI impI)
      fix it assume "it \<in> set items" "category it = cat \<and> index it = i"
      then have "it \<in> set items" "category it = cat" "index it = i" by simp_all
      from tgtD [OF this(1,2)] this(3) Some show "beat it = storableBeat b" by auto
    qed
    let ?it = "\<lparr> item_id = cat @ ''-'' @ showNat i, category = cat, index = i,
                   beat = storableBeat b \<rparr>"
    from tgt [of ?it] i Some have "?it \<in> set items \<and> category ?it = cat" by blast
    then have ex: "\<exists>it \<in> set items. category it = cat \<and> index it = i"
      by (intro bexI [where x = ?it]) simp_all
    from slotsAfter_written [OF bounds i' all ex] Some i show ?thesis by simp
  qed
qed

lemma load_saved:
  assumes keys: "map fst beats = [''drum'', ''tuning'', ''instrumental'']"
      and lens: "\<forall>(cat, slots) \<in> set beats. length slots = 12"
      and items: "set savedBeats = set (snd (saveBeatsToDB None beats old))"
  shows "loadBeatsFromDB (Inr savedBeats) =
           map (\<lambda>(cat, slots). (cat, map (map_option storableBeat) slots)) beats"
proof -
  from keys obtain s1 s2 s3 where beats: "beats = [(''drum'', s1), (''tuning'', s2), (''instrumental'', s3)]"
    by (auto simp: map_eq_Cons_conv)
  have d: "distinct (map fst beats)" unfolding keys by simp
  from lens have l: "length s1 = 12" "length s2 = 12" "length s3 = 12" unfolding beats by auto
  have r1: "slotsAfter savedBeats ''drum'' (replicate 12 None) = map (map_option storableBeat) s1"
    using roundtrip_category [OF d _ items, of "''drum''" s1] l by (simp add: beats)
  have r2: "slotsAfter savedBeats ''tuning'' (replicate 12 None) = map (map_option storableBeat) s2"
    using roundtrip_category [OF d _ items, of "''tuning''" s2] l by (simp add: beats)
  have r3: "slotsAfter savedBeats ''instrumental'' (replicate 12 None) = map (map_option storableBeat) s3"
    using roundtrip_category [OF d _ items, of "''instrumental''" s3] l by (simp add: beats)
  have "distinct (map fst emptyBeats)" by (simp add: emptyBeats_def)
  then have "loadBeatsFromDB (Inr savedBeats) = map (\<lambda>(c, slots). (c, slotsAfter savedBeats c slots)) emptyBeats"
    by (simp add: loadBeatsFromDB_def foldl_placeItem)
  then show ?thesis by (simp add: emptyBeats_def r1 r2 r3 beats)
qed

text \<open>
  Claim C9. For a beats state with the categories drum, tuning and instrumental of 12 slots
  each, a successful save followed by a load of the saved records, in whatever order
  the store returns them, gives the same structure with \<open>file\<close> and \<open>audioBuffer\<close>
  removed from every populated slot. A load that meets an error, or an empty store,
  returns three categories of 12 empty slots.
\<close>

theorem beats_save_load_roundtrip:
  assumes "map fst beats = [''drum'', ''tuning'', ''instrumental'']"
      and "\<forall>(cat, slots) \<in> set beats. length slots = 12"
      and "set savedBeats = set (snd (saveBeatsToDB None beats records))"
  shows "fst (saveBeatsToDB None beats records) = Inr () \<and>
         loadBeatsFromDB (Inr savedBeats) =
           map (\<lambda>(cat, slots). (cat, map (map_option storableBeat) slots)) beats \<and>
         loadBeatsFromDB (Inl e) =
           [(''drum'', replicate 12 None), (''tuning'', replicate 12 None),
            (''instrumental'', replicate 12 None)] \<and>
         loadBeatsFromDB (Inr []) =
           [(''drum'', replicate 12 None), (''tuning'', replicate 12 None),
            (''instrumental'', replicate 12 None)]"
proof (intro conjI)
  show "fst (saveBeatsToDB None beats records) = Inr ()"
    by (simp add: saveBeatsToDB_def)
  show "loadBeatsFromDB (Inr savedBeats) =
           map (\<lambda>(cat, slots). (cat, map (map_option storableBeat) slots)) beats"
    using assms by (rule load_saved)
  show "loadBeatsFromDB (Inl e) =
           [(''drum'', replicate 12 None), (''tuning'', replicate 12 None),
            (''instrumental'', replicate 12 None)]"
    by (simp add: loadBeatsFromDB_def emptyBeats_def)
  show "loadBeatsFromDB (Inr []) =
           [(''drum'', replicate 12 None), (''tuning'', replicate 12 None),
            (''instrumental'', replicate 12 None)]"
    by (simp add: loadBeatsFromDB_def emptyBeats_def)
qed

theorem beats_save_load_roundtrip_witness:
  "map fst kickKit = [''drum'', ''tuning'', ''instrumental''] \<and>
   map (\<lambda>(cat, slots). length slots) kickKit = [12, 12, 12] \<and>
   snd (saveBeatsToDB None kickKit []) =
     [\<lparr> item_id = ''drum-3'', category = ''drum'', index = 3,
        beat = kickBeat\<lparr> file_song := None, audioBuffer := None \<rparr> \<rparr>] \<and>
   loadBeatsFromDB (Inr (snd (saveBeatsToDB None kickKit []))) =
     [(''drum'', (replicate 12 None)
                   [3 := Some (kickBeat\<lparr> file_song := None, audioBuffer := None \<rparr>)]),
      (''tuning'', replicate 12 None),
      (''instrumental'', replicate 12 None)]"
proof -
  have keys: "map fst kickKit = [''drum'', ''tuning'', ''instrumental'']"
    by (simp add: kickKit_def)
  have lens: "\<forall>(cat, slots) \<in> set kickKit. length slots = 12"
    by (simp add: kickKit_def)
  have lens': "map (\<lambda>(cat, slots). length slots) kickKit = [12, 12, 12]"
    by (simp add: kickKit_def)
  have items: "set (snd (saveBeatsToDB None kickKit [])) = set (snd (saveBeatsToDB None kickKit []))"
    by (rule refl)
  have saved: "snd (saveBeatsToDB None kickKit []) =
     [\<lparr> item_id = ''drum-3'', category = ''drum'', index = 3,
        beat = kickBeat\<lparr> file_song := None, audioBuffer := None \<rparr> \<rparr>]"
    by code_simp
  from beats_save_load_roundtrip [OF keys lens items]
  have "loadBeatsFromDB (Inr (snd (saveBeatsToDB None kickKit []))) =
           map (\<lambda>(cat, slots). (cat, map (map_option storableBeat) slots)) kickKit"
    by blast
  then have loaded: "loadBeatsFromDB (Inr (snd (saveBeatsToDB None kickKit []))) =
     [(''drum'', (replicate 12 None)
                   [3 := Some (kickBeat\<lparr> file_song := None, audioBuffer := None \<rparr>)]),
      (''tuning'', replicate 12 None),
      (''instrumental'', replicate 12 None)]"
    by (simp add: kickKit_def storableBeat_def map_update)
  from keys lens' saved loaded show ?thesis by (intro conjI)
qed

subsection \<open>Auto-DJ track selection\<close>

lemma energy_pred_eq:
  "(\<lambda>s. case energy s of None \<Rightarrow> True
        | Some e \<Rightarrow> if e = 0 then True
            else (case flow of
                    Maintain \<Rightarrow> \<bar>e - c\<bar> \<le> 2
                  | Increase \<Rightarrow> e > c
                  | Decrease \<Rightarrow> e < c
                  | AnyEnergy \<Rightarrow> True))
   = (\<lambda>s. case energy s of None \<Rightarrow> True | Some e \<Rightarrow> e = 0 \<or> energyDirection flow c e)"
  by (cases flow) (auto simp: fun_eq_iff split: option.splits)

lemma bpm_pred_eq:
  "(\<lambda>s. case bpm s of None \<Rightarrow> False | Some v \<Rightarrow> v \<noteq> 0 \<and> v \<ge> b - r \<and> v \<le> b + r)
   = (\<lambda>s. case bpm s of None \<Rightarrow> False | Some v \<Rightarrow> v \<noteq> 0 \<and> \<bar>v - b\<bar> \<le> (r::real))"
  by (auto simp: fun_eq_iff split: option.splits)

lemma artist_pred_eq:
  "(\<lambda>s. case getArtistFromName (name s) of None \<Rightarrow> True
        | Some nextArtist \<Rightarrow> if nextArtist = [] then True
                              else toLowerCase nextArtist \<noteq> toLowerCase currentArtist)
   = (\<lambda>s. case getArtistFromName (name s) of None \<Rightarrow> True
        | Some nextArtist \<Rightarrow> nextArtist = [] \<or> toLowerCase nextArtist \<noteq> toLowerCase currentArtist)"
  by (auto simp: fun_eq_iff split: option.splits)

lemma filteredTracks_softCriteria:
  "filteredTracks settings activeSong pool = softCriteria settings activeSong pool"
proof -
  have e: "(case songEnergy activeSong of
               None \<Rightarrow> f0
             | Some currentEnergy \<Rightarrow>
                 if energyFlow settings \<noteq> AnyEnergy \<and> currentEnergy \<noteq> 0
                 then let energyMatches =
                            filter (\<lambda>s. case energy s of
                                          None \<Rightarrow> True
                                        | Some e \<Rightarrow>
                                            if e = 0 then True
                                            else (case energyFlow settings of
                                                    Maintain \<Rightarrow> \<bar>e - currentEnergy\<bar> \<le> 2
                                                  | Increase \<Rightarrow> e > currentEnergy
                                                  | Decrease \<Rightarrow> e < currentEnergy
                                                  | AnyEnergy \<Rightarrow> True)) f0
                      in if energyMatches \<noteq> [] then energyMatches else f0
                 else f0) = softFilter (energyCriterion settings activeSong) f0" for f0
    unfolding energy_pred_eq
    by (simp add: energyCriterion_def softFilter_def Let_def split: option.splits)
  have a: "(case songName activeSong of
               None \<Rightarrow> f1
             | Some currentName \<Rightarrow>
                 if avoidRepeatingArtist settings \<and> currentName \<noteq> []
                 then (case getArtistFromName currentName of
                         None \<Rightarrow> f1
                       | Some currentArtist \<Rightarrow>
                           if currentArtist \<noteq> []
                           then let artistMatches =
                                      filter (\<lambda>s. case getArtistFromName (name s) of
                                                    None \<Rightarrow> True
                                                  | Some nextArtist \<Rightarrow>
                                                      if nextArtist = [] then True
                                                      else toLowerCase nextArtist
                                                             \<noteq> toLowerCase currentArtist) f1
                                in if artistMatches \<noteq> [] then artistMatches else f1
                           else f1)
                 else f1) = softFilter (artistCriterion settings activeSong) f1" for f1
    unfolding artist_pred_eq
    by (simp add: artistCriterion_def softFilter_def Let_def songName_def split: option.splits)
  have b: "(case songBpm activeSong of
               None \<Rightarrow> f2
             | Some b \<Rightarrow>
                 if enabled (bpmMatch settings) \<and> b \<noteq> 0
                 then let r = bpm_range (bpmMatch settings);
                          bpmMatches =
                            filter (\<lambda>s. case bpm s of
                                          None \<Rightarrow> False
                                        | Some v \<Rightarrow> v \<noteq> 0 \<and> v \<ge> b - r \<and> v \<le> b + r) f2
                      in if bpmMatches \<noteq> [] then bpmMatches else f2
                 else f2) = softFilter (bpmCriterion settings activeSong) f2" for f2
    unfolding Let_def bpm_pred_eq
    by (simp add: bpmCriterion_def softFilter_def split: option.splits)
  have g: "(case songGenre activeSong of
               None \<Rightarrow> f3
             | Some g \<Rightarrow>
                 if genreMatch settings \<and> g \<noteq> []
                 then let genreMatches = filter (\<lambda>s. genre s = Some g) f3
                      in if genreMatches \<noteq> [] then genreMatches else f3
                 else f3) = softFilter (genreCriterion settings activeSong) f3" for f3
    by (simp add: genreCriterion_def softFilter_def Let_def split: option.splits)
  have h: "(case songKey activeSong of
               None \<Rightarrow> f4
             | Some k \<Rightarrow>
                 if harmonicMix settings \<and> k \<noteq> []
                 then let compatibleKeys = getCompatibleKeys k;
                          harmonicMatches =
                            filter (\<lambda>s. case key s of
                                          None \<Rightarrow> False
                                        | Some sk \<Rightarrow> sk \<noteq> [] \<and> sk \<in> set compatibleKeys) f4
                      in if harmonicMatches \<noteq> [] then harmonicMatches else f4
                 else f4) = softFilter (harmonicCriterion settings activeSong) f4" for f4
    by (simp add: harmonicCriterion_def softFilter_def Let_def split: option.splits)
  show ?thesis
    unfolding filteredTracks_def softCriteria_def Let_def [of pool] Let_def [of "softFilter _ _"] e a b g h
    by (rule refl)
qed


lemma softFilter_nonempty: "pool \<noteq> [] \<Longrightarrow> softFilter c pool \<noteq> []"
  by (simp add: softFilter_def split: option.splits)

lemma softFilter_subset: "set (softFilter c pool) \<subseteq> set pool"
  by (auto simp: softFilter_def split: option.splits)

lemma softCriteria_nonempty: "pool \<noteq> [] \<Longrightarrow> softCriteria settings activeSong pool \<noteq> []"
  unfolding softCriteria_def by (intro softFilter_nonempty)

lemma softCriteria_subset: "set (softCriteria settings activeSong pool) \<subseteq> set pool"
  unfolding softCriteria_def
  by (meson softFilter_subset subset_trans)

lemma tieredPool_nonempty: "lib \<noteq> [] \<Longrightarrow> tieredPool lib history cur avoid \<noteq> []"
  by (simp add: tieredPool_def Let_def)

lemma tieredPool_subset: "set (tieredPool lib history cur avoid) \<subseteq> set lib"
  by (auto simp: tieredPool_def Let_def)

lemma arrayGet_random:
  assumes "xs \<noteq> []" and "0 \<le> r" and "r < 1"
  shows "\<exists>x \<in> set xs. arrayGet xs \<lfloor>r * real (length xs)\<rfloor> = Some x"
proof -
  let ?n = "length xs"
  have pos: "0 < real ?n" using assms(1) by simp
  have lo: "0 \<le> \<lfloor>r * real ?n\<rfloor>" using assms(2) by simp
  have "r * real ?n < real ?n" using assms(3) pos by simp
  then have hi: "\<lfloor>r * real ?n\<rfloor> < int ?n" by (simp add: floor_less_iff)
  from hi have "nat \<lfloor>r * real ?n\<rfloor> < ?n" by (simp only: nat_less_iff [OF lo])
  then have "xs ! nat \<lfloor>r * real ?n\<rfloor> \<in> set xs" by simp
  with lo hi show ?thesis by (simp add: arrayGet_def)
qed

lemma arrayGet_first: "xs \<noteq> [] \<Longrightarrow> \<exists>x \<in> set xs. arrayGet xs 0 = Some x"
  by (cases xs) (simp_all add: arrayGet_def)

lemma sequentialPick_result:
  "lib \<noteq> [] \<Longrightarrow>
   sequentialPick lib pool cur is = Inr None \<or> (\<exists>m \<in> set pool. sequentialPick lib pool cur is = Inr (Some m))"
proof (induction "is")
  case Nil
  show ?case by simp
next
  case (Cons i rest)
  have "(cur + i) mod length lib < length lib" using Cons.prems by simp
  then have get: "arrayGet lib (int ((cur + i) mod length lib)) = Some (lib ! ((cur + i) mod length lib))"
    by (simp add: arrayGet_def)
  show ?case
  proof (cases "find (\<lambda>p. id_song p = id_song (lib ! ((cur + i) mod length lib))) pool")
    case None
    with get Cons show ?thesis by (simp add: Let_def)
  next
    case (Some m)
    then have "m \<in> set pool" by (auto simp: find_Some_iff)
    with get Some show ?thesis by (simp add: Let_def)
  qed
qed

lemma getNextTrack_track_aux:
  assumes lib: "library st \<noteq> []" and r: "0 \<le> random" "random < 1"
  shows "\<exists>t. getNextTrack st random avoidTrackId = Inr (Some t) \<and>
             (t \<in> set (library st) \<or> t \<in> set (queueA st) \<or> t \<in> set (queueB st))"
proof -
  define activeDeckState where "activeDeckState = (if autoDjActiveDeck st = DeckA then deckA st else deckB st)"
  define nextDeckQueue where "nextDeckQueue = (if autoDjActiveDeck st = DeckA then queueB st else queueA st)"
  define currentSongId where "currentSongId = map_option id_song (song activeDeckState)"
  define selectionPool where "selectionPool = tieredPool (library st) (autoDjHistory st) currentSongId avoidTrackId"
  define finalSelectionPool where "finalSelectionPool =
     (if filteredTracks (autoDjSettings st) (song activeDeckState) selectionPool \<noteq> []
      then filteredTracks (autoDjSettings st) (song activeDeckState) selectionPool else selectionPool)"
  have pool_ne: "selectionPool \<noteq> []" unfolding selectionPool_def using lib by (rule tieredPool_nonempty)
  have pool_sub: "set selectionPool \<subseteq> set (library st)" unfolding selectionPool_def by (rule tieredPool_subset)
  have fin_ne: "finalSelectionPool \<noteq> []" unfolding finalSelectionPool_def using pool_ne by simp
  have fin_sub: "set finalSelectionPool \<subseteq> set (library st)"
    unfolding finalSelectionPool_def filteredTracks_softCriteria
    using softCriteria_subset [of "autoDjSettings st" "song activeDeckState" selectionPool] pool_sub
    by auto
  show ?thesis
  proof (cases "playlistSource (autoDjSettings st) = FromQueues \<and> nextDeckQueue \<noteq> []")
    case True
    then obtain q where q: "q \<in> set nextDeckQueue" "arrayGet nextDeckQueue 0 = Some q"
      using arrayGet_first by blast
    from q(1) have "q \<in> set (queueA st) \<or> q \<in> set (queueB st)"
      unfolding nextDeckQueue_def by (auto split: if_splits)
    moreover have "getNextTrack st random avoidTrackId = Inr (Some q)"
      using True q(2) unfolding getNextTrack_def Let_def nextDeckQueue_def by simp
    ultimately show ?thesis by blast
  next
    case False
    have unfold: "getNextTrack st random avoidTrackId =
        (if shuffle (autoDjSettings st)
         then Inr (arrayGet finalSelectionPool \<lfloor>random * real (length finalSelectionPool)\<rfloor>)
         else (case findIndex (\<lambda>s. Some (id_song s) = currentSongId) (library st) of
                 None \<Rightarrow> Inr (arrayGet finalSelectionPool 0)
               | Some currentSongIndex \<Rightarrow>
                   (case sequentialPick (library st) finalSelectionPool currentSongIndex
                           [1..<length (library st) + 1] of
                      Inl e \<Rightarrow> Inl e
                    | Inr (Some m) \<Rightarrow> Inr (Some m)
                    | Inr None \<Rightarrow> Inr (arrayGet finalSelectionPool 0))))"
    proof -
      have c1: "(if playlistSource (autoDjSettings st) = FromQueues \<and> nextDeckQueue \<noteq> [] then X else Y) = Y"
        for X Y :: "JsError + Song option"
        using False by (rule if_not_P)
      have c2: "(if library st = [] then X else Y) = Y" for X Y :: "JsError + Song option"
        using lib by (rule if_not_P)
      have c3: "(if selectionPool = [] then X else Y) = Y" for X Y :: "JsError + Song option"
        using pool_ne by (rule if_not_P)
      show ?thesis
        unfolding getNextTrack_def Let_def nextDeckQueue_def [symmetric] activeDeckState_def [symmetric]
          currentSongId_def [symmetric] selectionPool_def [symmetric] finalSelectionPool_def [symmetric]
          c1 c2 c3
        by (rule refl)
    qed
    have "\<exists>t \<in> set finalSelectionPool. getNextTrack st random avoidTrackId = Inr (Some t)"
    proof (cases "shuffle (autoDjSettings st)")
      case True
      with arrayGet_random [OF fin_ne r] show ?thesis unfolding unfold by auto
    next
      case noshuffle: False
      show ?thesis
      proof (cases "findIndex (\<lambda>s. Some (id_song s) = currentSongId) (library st)")
        case None
        with noshuffle arrayGet_first [OF fin_ne] show ?thesis unfolding unfold by auto
      next
        case (Some idx)
        from sequentialPick_result [OF lib, of finalSelectionPool idx "[1..<length (library st) + 1]"]
        show ?thesis
        proof
          assume "sequentialPick (library st) finalSelectionPool idx [1..<length (library st) + 1] = Inr None"
          with noshuffle Some arrayGet_first [OF fin_ne] show ?thesis unfolding unfold by auto
        next
          assume "\<exists>m \<in> set finalSelectionPool.
             sequentialPick (library st) finalSelectionPool idx [1..<length (library st) + 1] = Inr (Some m)"
          with noshuffle Some show ?thesis unfolding unfold by auto
        qed
      qed
    qed
    with fin_sub show ?thesis by blast
  qed
qed

text \<open>
  Claim C2. The criteria stage of \<open>getNextTrack\<close> is the five soft filters applied in the
  order energy-flow direction, artist-repeat avoidance, BPM window, exact genre match,
  harmonic-key compatibility. A soft filter replaces the pool by its narrowed set when
  that set is not empty; when it is empty (or the criterion does not apply) the pool from
  before the filter is kept. So a non-empty pool stays non-empty, and the result has
  members of the pool only.
\<close>

theorem filteredTracks_soft_criteria_in_order:
  "filteredTracks settings activeSong pool =
     softFilter (harmonicCriterion settings activeSong)
       (softFilter (genreCriterion settings activeSong)
         (softFilter (bpmCriterion settings activeSong)
           (softFilter (artistCriterion settings activeSong)
             (softFilter (energyCriterion settings activeSong) pool)))) \<and>
   (filter P p \<noteq> [] \<longrightarrow> softFilter (Some P) p = filter P p) \<and>
   (filter P p = [] \<longrightarrow> softFilter (Some P) p = p) \<and>
   softFilter None p = p \<and>
   (pool \<noteq> [] \<longrightarrow> filteredTracks settings activeSong pool \<noteq> []) \<and>
   set (filteredTracks settings activeSong pool) \<subseteq> set pool"
proof (intro conjI impI)
  show "filteredTracks settings activeSong pool =
     softFilter (harmonicCriterion settings activeSong)
       (softFilter (genreCriterion settings activeSong)
         (softFilter (bpmCriterion settings activeSong)
           (softFilter (artistCriterion settings activeSong)
             (softFilter (energyCriterion settings activeSong) pool))))"
    unfolding filteredTracks_softCriteria softCriteria_def ..
  show "softFilter (Some P) p = filter P p" if "filter P p \<noteq> []"
    using that by (simp add: softFilter_def)
  show "softFilter (Some P) p = p" if "filter P p = []"
    using that by (simp add: softFilter_def)
  show "softFilter None p = p"
    by (simp add: softFilter_def)
  show "filteredTracks settings activeSong pool \<noteq> []" if "pool \<noteq> []"
    unfolding filteredTracks_softCriteria using that by (rule softCriteria_nonempty)
  show "set (filteredTracks settings activeSong pool) \<subseteq> set pool"
    unfolding filteredTracks_softCriteria by (rule softCriteria_subset)
qed

text \<open>
  With every criterion on and \<open>trackOne\<close> playing: the energy filter keeps the two tracks
  of higher energy, the artist filter drops the one by the same artist, the BPM window and
  the genre match would empty the pool and are skipped, the harmonic filter keeps 8B.
\<close>

theorem filteredTracks_soft_criteria_in_order_witness:
  "[trackTwo, trackThree, trackFour] \<noteq> [] \<and>
   filter (\<lambda>s. genre s = Some ''House'') [trackThree] = [] \<and>
   softFilter (Some (\<lambda>s. genre s = Some ''House'')) [trackThree] = [trackThree] \<and>
   filter (\<lambda>s. genre s = Some ''Techno'') [trackTwo, trackThree] \<noteq> [] \<and>
   softFilter (Some (\<lambda>s. genre s = Some ''Techno'')) [trackTwo, trackThree] = [trackThree] \<and>
   softFilter (energyCriterion strictSettings (Some trackOne)) [trackTwo, trackThree, trackFour]
     = [trackTwo, trackThree] \<and>
   softFilter (artistCriterion strictSettings (Some trackOne)) [trackTwo, trackThree] = [trackThree] \<and>
   softFilter (bpmCriterion strictSettings (Some trackOne)) [trackThree] = [trackThree] \<and>
   softFilter (genreCriterion strictSettings (Some trackOne)) [trackThree] = [trackThree] \<and>
   softFilter (harmonicCriterion strictSettings (Some trackOne)) [trackThree] = [trackThree] \<and>
   filteredTracks strictSettings (Some trackOne) [trackTwo, trackThree, trackFour] = [trackThree]"
proof -
  have ne: "[trackTwo, trackThree, trackFour] \<noteq> []" by simp
  have g0: "filter (\<lambda>s. genre s = Some ''House'') [trackThree] = []"
    by (simp add: trackThree_def)
  have g1: "filter (\<lambda>s. genre s = Some ''Techno'') [trackTwo, trackThree] \<noteq> []"
    by (simp add: trackThree_def)
  have g1': "filter (\<lambda>s. genre s = Some ''Techno'') [trackTwo, trackThree] = [trackThree]"
    by (simp add: trackTwo_def trackThree_def)
  have e: "softFilter (energyCriterion strictSettings (Some trackOne)) [trackTwo, trackThree, trackFour]
     = [trackTwo, trackThree]"
    by code_simp
  have a: "softFilter (artistCriterion strictSettings (Some trackOne)) [trackTwo, trackThree] = [trackThree]"
    by code_simp
  have b: "softFilter (bpmCriterion strictSettings (Some trackOne)) [trackThree] = [trackThree]"
    by code_simp
  have g: "softFilter (genreCriterion strictSettings (Some trackOne)) [trackThree] = [trackThree]"
    by code_simp
  have h: "softFilter (harmonicCriterion strictSettings (Some trackOne)) [trackThree] = [trackThree]"
    by code_simp
  note inst = filteredTracks_soft_criteria_in_order [of strictSettings "Some trackOne"
      "[trackTwo, trackThree, trackFour]"]
  from inst [of "\<lambda>s. genre s = Some ''House''" "[trackThree]"] g0
  have s0: "softFilter (Some (\<lambda>s. genre s = Some ''House'')) [trackThree] = [trackThree]"
    by blast
  from inst [of "\<lambda>s. genre s = Some ''Techno''" "[trackTwo, trackThree]"] g1
  have "softFilter (Some (\<lambda>s. genre s = Some ''Techno'')) [trackTwo, trackThree]
        = filter (\<lambda>s. genre s = Some ''Techno'') [trackTwo, trackThree]"
    by blast
  then have s1: "softFilter (Some (\<lambda>s. genre s = Some ''Techno'')) [trackTwo, trackThree] = [trackThree]"
    unfolding g1' .
  from inst [of "\<lambda>s. True" "[]"]
  have "filteredTracks strictSettings (Some trackOne) [trackTwo, trackThree, trackFour] =
     softFilter (harmonicCriterion strictSettings (Some trackOne))
       (softFilter (genreCriterion strictSettings (Some trackOne))
         (softFilter (bpmCriterion strictSettings (Some trackOne))
           (softFilter (artistCriterion strictSettings (Some trackOne))
             (softFilter (energyCriterion strictSettings (Some trackOne))
                [trackTwo, trackThree, trackFour]))))"
    by blast
  then have all: "filteredTracks strictSettings (Some trackOne) [trackTwo, trackThree, trackFour] = [trackThree]"
    unfolding e a b g h .
  from ne g0 s0 g1 s1 e a b g h all show ?thesis by (intro conjI)
qed

text \<open>
  Claim C1. For a library that is not empty (and a value of \<open>Math.random()\<close> from 0 up to
  but not including 1), \<open>getNextTrack\<close> returns a track: not \<open>null\<close>, not
  \<open>undefined\<close>, and no exception. The track is of the library, or the head of a deck
  queue.
\<close>

theorem getNextTrack_returns_track:
  assumes "library st \<noteq> []" and "0 \<le> random" and "random < 1"
  shows "\<exists>t. getNextTrack st random avoidTrackId = Inr (Some t) \<and>
             (t \<in> set (library st) \<or> t \<in> set (queueA st) \<or> t \<in> set (queueB st))"
  using assms by (rule getNextTrack_track_aux)

text \<open>
  The library of two tracks that are both in the history: the tiers 1 and 2 are empty,
  tier 3 leaves the track that is not playing, and that track is returned.
\<close>

theorem getNextTrack_returns_track_witness:
  "library twoTrackSession \<noteq> [] \<and> (0::real) \<le> 1 / 2 \<and> (1::real) / 2 < 1 \<and>
   length (library twoTrackSession) = 2 \<and>
   set (library twoTrackSession) \<subseteq> set (autoDjHistory twoTrackSession) \<and>
   getNextTrack twoTrackSession (1 / 2) None = Inr (Some trackThree) \<and>
   trackThree \<in> set (library twoTrackSession)"
proof -
  have lib: "library twoTrackSession \<noteq> []" by (simp add: twoTrackSession_def)
  have r: "(0::real) \<le> 1 / 2" "(1::real) / 2 < 1" by simp_all
  have two: "length (library twoTrackSession) = 2" by (simp add: twoTrackSession_def)
  have hist: "set (library twoTrackSession) \<subseteq> set (autoDjHistory twoTrackSession)"
    by (simp add: twoTrackSession_def)
  from getNextTrack_returns_track [OF lib r, of None]
  obtain t where t: "getNextTrack twoTrackSession (1 / 2) None = Inr (Some t)"
    and mem: "t \<in> set (library twoTrackSession) \<or> t \<in> set (queueA twoTrackSession)
              \<or> t \<in> set (queueB twoTrackSession)"
    by blast
  have ev: "getNextTrack twoTrackSession (1 / 2) None = Inr (Some trackThree)"
    by code_simp
  from t ev have "t = trackThree" by simp
  with mem have "trackThree \<in> set (library twoTrackSession)"
    by (simp add: twoTrackSession_def)
  with lib r two hist ev show ?thesis by (intro conjI)
qed

subsection \<open>Loops and the transport clock\<close>

lemma fmod_range:
  assumes "0 \<le> a" and "0 < b"
  shows "0 \<le> fmod a b \<and> fmod a b < b"
proof -
  have q: "0 \<le> a / b" using assms by simp
  have f: "fmod a b = a - b * of_int \<lfloor>a / b\<rfloor>" using q by (simp add: fmod_def)
  have ab: "b * (a / b) = a" using assms(2) by simp
  have "b * of_int \<lfloor>a / b\<rfloor> \<le> b * (a / b)"
    using assms(2) by (intro mult_left_mono) simp_all
  then have lo: "b * of_int \<lfloor>a / b\<rfloor> \<le> a" unfolding ab .
  have "a / b < of_int \<lfloor>a / b\<rfloor> + 1" by linarith
  then have "b * (a / b) < b * (of_int \<lfloor>a / b\<rfloor> + 1)"
    using assms(2) by (intro mult_strict_left_mono)
  then have hi: "a < b * of_int \<lfloor>a / b\<rfloor> + b" unfolding ab by (simp add: algebra_simps)
  from lo hi show ?thesis unfolding f by simp
qed

lemma loopBoundsOrdered_invariant: "loopBoundsOrdered l \<Longrightarrow> loopInvariant l"
  by (auto simp: loopBoundsOrdered_def loopInvariant_def split: option.splits if_splits)

text \<open>
  What does hold: a loop command keeps the bounds ordered when an auto-loop is asked for
  with a positive number of beats while the playhead is before the end of the track.
\<close>

lemma handleSetLoop_keeps_bounds_ordered:
  assumes inv: "loopBoundsOrdered (loop deckState)"
      and beats: "\<And>beats. cmd = Beats beats \<Longrightarrow>
                    0 < beats \<and> (\<forall>b. bpm_deck deckState = Some b \<longrightarrow> 0 \<le> b)
                    \<and> currentTime deckState < duration deckState"
      and live: "loopBoundsOrdered (loop d)"
  shows "loopBoundsOrdered (loop (fst (handleSetLoop deckState cmd (d, audio))))"
proof (cases cmd)
  case (Beats beats)
  from beats [OF Beats] have b: "0 < beats" "\<forall>b. bpm_deck deckState = Some b \<longrightarrow> 0 \<le> b"
    "currentTime deckState < duration deckState" by simp_all
  show ?thesis
  proof (cases "bpm_deck deckState")
    case None
    with Beats live show ?thesis by (simp add: handleSetLoop_def)
  next
    case (Some x)
    show ?thesis
    proof (cases "x = 0")
      case True
      with Beats Some live show ?thesis by (simp add: handleSetLoop_def)
    next
      case False
      with b(2) Some have "0 < x" by force
      then have "0 < beats * (60 / x)" using b(1) by simp
      then have "currentTime deckState < min (currentTime deckState + beats * (60 / x)) (duration deckState)"
        using b(3) by simp
      with Beats Some False show ?thesis
        by (simp add: handleSetLoop_def Let_def loopBoundsOrdered_def)
    qed
  qed
next
  case SetIn
  then show ?thesis by (simp add: handleSetLoop_def loopBoundsOrdered_def)
next
  case SetOut
  with inv live show ?thesis
    by (auto simp: handleSetLoop_def Let_def loopBoundsOrdered_def split: option.splits)
next
  case Exit
  with inv show ?thesis
    by (auto simp: handleSetLoop_def Let_def loopBoundsOrdered_def split: option.splits if_splits)
next
  case Reloop
  with inv live show ?thesis
    by (auto simp: handleSetLoop_def Let_def loopBoundsOrdered_def split: option.splits if_splits)
qed

text \<open>
  The updater with a \<open>seekDeck\<close> that has closed over a loaded deck: the position is
  wrapped into the loop, and a playing deck gets a source started there.
\<close>

lemma processDeck_wraps:
  assumes play: "isPlaying d" and last: "lastUpdateTime d = Some lastUpdate" "lastUpdate \<noteq> 0"
      and lp: "loop d = \<lparr> loop_start = Some s, loop_end = Some e, loop_active = True \<rparr>"
      and ord: "0 \<le> s" "s < e" "e \<le> duration closure"
      and over: "e \<le> currentTime d + (now - lastUpdate) / 1000 * playbackRate d"
      and loaded: "song closure \<noteq> None"
  shows "\<exists>d' audio'. processDeck closure now (d, audio) = Inr (d', audio') \<and>
           currentTime d' = s + fmod (currentTime d + (now - lastUpdate) / 1000 * playbackRate d - e) (e - s) \<and>
           s \<le> currentTime d' \<and> currentTime d' < e \<and>
           (isPlaying closure \<and> graphReady audio \<longrightarrow>
              (\<exists>src. source audio' = Some src \<and> src_offset src = currentTime d' \<and> \<not> src_stopped src))"
proof -
  define newTime where "newTime = currentTime d + (now - lastUpdate) / 1000 * playbackRate d"
  define w where "w = s + fmod (newTime - e) (e - s)"
  have r: "0 \<le> fmod (newTime - e) (e - s) \<and> fmod (newTime - e) (e - s) < e - s"
    using over ord by (intro fmod_range) (simp_all add: newTime_def)
  then have win: "s \<le> w" "w < e" unfolding w_def by simp_all
  have dur: "duration closure \<noteq> 0" using ord by simp
  have clamp: "max 0 (min w (duration closure)) = w" using win ord by simp
  have rem: "js_rem (newTime - e) (e - s) = Some (fmod (newTime - e) (e - s))"
    using ord by (simp add: js_rem_def)
  have step: "processDeck closure now (d, audio) =
     seekDeck closure (Some w) now
       (d\<lparr> platterAngle := fmod (platterAngle d + 2 * playbackRate d) 360, lastUpdateTime := Some now \<rparr>, audio)"
  proof -
    have over': "e \<le> newTime" using over unfolding newTime_def .
    have nt: "currentTime d + (now - lastUpdate) * playbackRate d / 1000 = newTime"
      by (simp add: newTime_def)
    show ?thesis
      unfolding processDeck_def Let_def w_def
      using play last lp over' rem by (simp add: nt)
  qed
  show ?thesis
    unfolding step newTime_def [symmetric] w_def [symmetric]
    using loaded dur win
    by (auto simp: seekDeck_def Let_def clamp updateAudioSourceLoop_def split: option.splits prod.splits)
qed

lemma deckAtEnd_reached:
  "updateLoop 1020 (deckNearEnd, plainAudio) = Inr (deckAtEnd, plainAudio)"
  by (simp add: updateLoop_def processDeck_def deckNearEnd_def deckAtEnd_def initialDeckState_def
      advanceDeck_def Let_def)

lemma processDeck_fresh_closure_example:
  "processDeck loopingDeck 2100 (loopingDeck, loopingAudio) =
     Inr (loopingDeck\<lparr> currentTime := 11, platterAngle := 2, lastUpdateTime := Some 2100 \<rparr>,
          loopingAudio\<lparr> source := Some \<lparr> src_loop = True, src_loopStart = 10, src_loopEnd = 14,
                                           src_offset = 11, src_playbackRate = 1, src_detune = 0,
                                           src_stopped = False \<rparr> \<rparr>)"
  by (simp add: processDeck_def loopingDeck_def initialDeckState_def seekDeck_def Let_def fmod_def
      js_rem_def updateAudioSourceLoop_def loopingAudio_def)

lemma seekDeck_initial_closure: "seekDeck initialDeckState newTime now da = Inr da"
  by (cases da) (simp add: seekDeck_def initialDeckState_def)

lemma updateLoop_never_seeks: "\<exists>d'. updateLoop now (d, audio) = Inr (d', audio)"
  by (simp add: updateLoop_def processDeck_def Let_def seekDeck_initial_closure
      split: option.splits)

text \<open>
  Claim C6 (the code departs from it). The deck of \<open>deckAtEnd\<close> is the one the transport
  clock leaves when a track has played to its end (\<open>deckAtEnd_reached\<close>): its loop is
  inactive and the invariant holds. The auto-loop of 4 beats on that deck, and the Loop Out
  pre-roll, build the loop from 320 s to \<open>min (320 + 2) 320 = 320\<close> s and make it active:
  an active loop whose end is not after its start.
\<close>

theorem autoLoop_at_track_end:
  "loopInvariant (loop deckAtEnd) \<and>
   loop (fst (handleSetLoop deckAtEnd (Beats 4) (deckAtEnd, plainAudio))) =
     \<lparr> loop_start = Some 320, loop_end = Some 320, loop_active = True \<rparr> \<and>
   \<not> loopInvariant (loop (fst (handleSetLoop deckAtEnd (Beats 4) (deckAtEnd, plainAudio)))) \<and>
   loop (fst (loopOutPreRoll LoopOut deckAtEnd (deckAtEnd, plainAudio))) =
     \<lparr> loop_start = Some 320, loop_end = Some 320, loop_active = True \<rparr> \<and>
   \<not> loopInvariant (loop (fst (loopOutPreRoll LoopOut deckAtEnd (deckAtEnd, plainAudio))))"
  by (simp add: handleSetLoop_def loopOutPreRoll_def deckAtEnd_def deckNearEnd_def
      initialDeckState_def Let_def loopInvariant_def)

text \<open>
  Claim C4 (the code departs from it). The transport clock never seeks: whatever the deck
  state, \<open>updateLoop\<close> leaves the audio ref as it is. For the deck with the active loop
  from 10 s to 14 s whose simulated time reaches 15 s (13.9 s plus 1.1 s elapsed), the
  update turns the platter and resets the clock reading, and the position stays at 13.9 s:
  it is not wrapped to 11 s, and the source is not restarted. (\<open>processDeck_wraps\<close> and
  \<open>processDeck_fresh_closure_example\<close>: the same updater with a \<open>seekDeck\<close> of the
  current render does wrap to 11 s and restarts the source there.)
\<close>

theorem updateLoop_does_not_wrap:
  "(\<exists>d'. updateLoop now (d, audio) = Inr (d', audio)) \<and>
   updateLoop 2100 (loopingDeck, loopingAudio) =
     Inr (loopingDeck\<lparr> platterAngle := 2, lastUpdateTime := Some 2100 \<rparr>, loopingAudio) \<and>
   currentTime (loopingDeck\<lparr> platterAngle := 2, lastUpdateTime := Some 2100 \<rparr>) = 13.9"
proof (intro conjI)
  show "\<exists>d'. updateLoop now (d, audio) = Inr (d', audio)"
    by (rule updateLoop_never_seeks)
  show "updateLoop 2100 (loopingDeck, loopingAudio) =
     Inr (loopingDeck\<lparr> platterAngle := 2, lastUpdateTime := Some 2100 \<rparr>, loopingAudio)"
    by (simp add: updateLoop_def processDeck_def loopingDeck_def initialDeckState_def
        seekDeck_def Let_def fmod_def js_rem_def)
  show "currentTime (loopingDeck\<lparr> platterAngle := 2, lastUpdateTime := Some 2100 \<rparr>) = 13.9"
    by (simp add: loopingDeck_def)
qed

subsection \<open>The crossfader laws\<close>

lemma arctanSum_sum: "arctanSum n x = (\<Sum>i<n. (- 1) ^ i * (1 / real (i * 2 + 1) * x ^ (i * 2 + 1)))"
  by (induction n) simp_all

lemma arctanSum_numeral:
  "arctanSum (numeral k) x =
     arctanSum (pred_numeral k) x
       + (- 1) ^ pred_numeral k * (1 / real (pred_numeral k * 2 + 1) * x ^ (pred_numeral k * 2 + 1))"
  by (simp add: numeral_eq_Suc)

lemma arctan_between:
  assumes "0 < x" and "x \<le> 1"
  shows "arctanSum (2 * n) x \<le> arctan x \<and> arctan x \<le> arctanSum (2 * n + 1) x"
proof -
  have ax: "\<bar>x\<bar> \<le> 1" using assms by simp
  have pos: "0 < 1 / real (0 * 2 + 1) * x ^ (0 * 2 + 1)" using assms by simp
  from summable_Leibniz(2) [OF zeroseq_arctan_series [OF ax] monoseq_arctan_series [OF ax]] pos
  have "(\<Sum>i. (- 1) ^ i * (1 / real (i * 2 + 1) * x ^ (i * 2 + 1)))
          \<in> {\<Sum>i<2 * n. (- 1) ^ i * (1 / real (i * 2 + 1) * x ^ (i * 2 + 1)) ..
             \<Sum>i<2 * n + 1. (- 1) ^ i * (1 / real (i * 2 + 1) * x ^ (i * 2 + 1))}"
    by blast
  then show ?thesis
    unfolding arctan_series [OF ax, symmetric] arctanSum_sum by simp
qed

lemma pi_machin: "pi = 16 * arctan (1 / 5) - 4 * arctan (1 / 239)"
  using machin by simp

lemma low_value:
  "Math_PI + 122464679914735317 / 10 ^ 33
     \<le> 16 * arctanSum 24 (1 / 5) - 4 * arctanSum 7 (1 / 239)"
  by (simp add: arctanSum_numeral Math_PI_def power_divide)

lemma high_value:
  "16 * arctanSum 25 (1 / 5) - 4 * arctanSum 8 (1 / 239)
     \<le> Math_PI + 122464679914735318 / 10 ^ 33"
  by (simp add: arctanSum_numeral Math_PI_def power_divide)

lemma Math_PI_below_pi: "Math_PI + 122464679914735317 / 10 ^ 33 \<le> pi"
proof -
  have a: "arctanSum 24 (1 / 5) \<le> arctan (1 / 5)"
    using arctan_between [of "1 / 5" 12] by simp
  have b: "arctan (1 / 239) \<le> arctanSum 7 (1 / 239)"
    using arctan_between [of "1 / 239" 3] by simp
  from a b have "16 * arctanSum 24 (1 / 5) - 4 * arctanSum 7 (1 / 239) \<le> pi"
    unfolding pi_machin by simp
  with low_value show ?thesis by simp
qed

lemma Math_PI_less_pi: "Math_PI < pi"
proof -
  have "Math_PI < Math_PI + 122464679914735317 / 10 ^ 33" by simp
  with Math_PI_below_pi show ?thesis by linarith
qed

lemma pi_le_Math_PI: "pi \<le> Math_PI + 122464679914735318 / 10 ^ 33"
proof -
  have a: "arctan (1 / 5) \<le> arctanSum 25 (1 / 5)"
    using arctan_between [of "1 / 5" 12] by simp
  have b: "arctanSum 8 (1 / 239) \<le> arctan (1 / 239)"
    using arctan_between [of "1 / 239" 4] by simp
  from a b have "pi \<le> 16 * arctanSum 25 (1 / 5) - 4 * arctanSum 8 (1 / 239)"
    unfolding pi_machin by simp
  with high_value show ?thesis by simp
qed

lemma Math_PI_pos: "0 < Math_PI"
  by (simp add: Math_PI_def)

lemma Math_PI_double: "Math_PI = of_int 884279719003555 * 2 powr of_int (- 48)"
  by (simp add: Math_PI_def powr_neg_numeral)

lemma half_Math_PI_double: "Math_PI / 2 = of_int 884279719003555 * 2 powr of_int (- 49)"
  by (simp add: Math_PI_def powr_neg_numeral)

lemma position_unit:
  assumes "- 1 \<le> x" and "x \<le> 1"
  shows "0 \<le> div64 (add64 x 1) 2 \<and> div64 (add64 x 1) 2 \<le> 1"
proof -
  have "0 \<le> x + 1" "x + 1 \<le> 2" using assms by simp_all
  then have "0 \<le> add64 x 1" "add64 x 1 \<le> 2"
    unfolding add64_def by (simp_all add: toDouble_nonneg toDouble_le_two)
  then have "0 \<le> add64 x 1 / 2" "add64 x 1 / 2 \<le> 1" by simp_all
  from toDouble_unit [OF this] show ?thesis unfolding div64_def .
qed

lemma linear_range:
  assumes "- 1 \<le> x" and "x \<le> 1"
  shows "0 \<le> fst (crossfaderGains Linear x) \<and> fst (crossfaderGains Linear x) \<le> 1 \<and>
         0 \<le> snd (crossfaderGains Linear x) \<and> snd (crossfaderGains Linear x) \<le> 1"
proof -
  define position where "position = div64 (add64 x 1) 2"
  from position_unit [OF assms] have p: "0 \<le> position" "position \<le> 1" unfolding position_def by simp_all
  then have "0 \<le> 1 - position" "1 - position \<le> 1" by simp_all
  from toDouble_unit [OF this] p show ?thesis
    by (simp add: crossfaderGains_def Let_def position_def [symmetric] sub64_def)
qed

lemma fastcut_range:
  assumes "- 1 \<le> x" and "x \<le> 1"
  shows "0 \<le> fst (crossfaderGains FastCut x) \<and> fst (crossfaderGains FastCut x) \<le> 1 \<and>
         0 \<le> snd (crossfaderGains FastCut x) \<and> snd (crossfaderGains FastCut x) \<le> 1"
proof -
  define position where "position = div64 (add64 x 1) 2"
  define p where "p = (if position < 0.5 then mul64 2 position else mul64 2 (sub64 1 position))"
  define h where "h = div64 (Math_pow p 3) 2"
  from position_unit [OF assms] have pos: "0 \<le> position" "position \<le> 1" unfolding position_def by simp_all
  have p01: "0 \<le> p \<and> p \<le> 1"
  proof (cases "position < 0.5")
    case True
    then have "0 \<le> 2 * position" "2 * position \<le> 1" using pos by simp_all
    from toDouble_unit [OF this] True show ?thesis unfolding p_def mul64_def by simp
  next
    case False
    then have d: "0 \<le> 1 - position" "1 - position \<le> 1 / 2" using pos by simp_all
    have "0 \<le> sub64 1 position" "sub64 1 position \<le> 1 / 2"
      unfolding sub64_def using toDouble_nonneg [OF d(1)] toDouble_le_half [OF d] by blast+
    then have "0 \<le> 2 * sub64 1 position" "2 * sub64 1 position \<le> 1" by linarith+
    from toDouble_unit [OF this] False show ?thesis unfolding p_def mul64_def by simp
  qed
  then have "0 \<le> p ^ 3" "p ^ 3 \<le> 1" by (simp_all add: power_le_one)
  from toDouble_unit [OF this] have s: "0 \<le> Math_pow p 3" "Math_pow p 3 \<le> 1"
    unfolding Math_pow_def by simp_all
  then have "0 \<le> Math_pow p 3 / 2" "Math_pow p 3 / 2 \<le> 1" by simp_all
  from toDouble_unit [OF this] have h: "0 \<le> h" "h \<le> 1" unfolding h_def div64_def by simp_all
  then have "0 \<le> 1 - h" "1 - h \<le> 1" by simp_all
  from toDouble_unit [OF this] have g: "0 \<le> sub64 1 h" "sub64 1 h \<le> 1" unfolding sub64_def by simp_all
  have "crossfaderGains FastCut x = (if position < 0.5 then (sub64 1 h, h) else (h, sub64 1 h))"
    unfolding crossfaderGains_def Let_def position_def [symmetric] h_def p_def by simp
  with h g show ?thesis by simp
qed

lemma slowfade_angle:
  assumes "- 1 \<le> x" and "x \<le> 1"
  shows "0 \<le> div64 (mul64 (div64 (add64 x 1) 2) Math_PI) 2 \<and>
         div64 (mul64 (div64 (add64 x 1) 2) Math_PI) 2 \<le> Math_PI / 2"
proof -
  define position where "position = div64 (add64 x 1) 2"
  from position_unit [OF assms] have pos: "0 \<le> position" "position \<le> 1" unfolding position_def by simp_all
  have a0: "0 \<le> position * Math_PI" using pos Math_PI_pos by simp
  have "position * Math_PI \<le> 1 * Math_PI" using pos Math_PI_pos by (intro mult_right_mono) simp_all
  then have a1: "position * Math_PI \<le> of_int 884279719003555 * 2 powr of_int (- 48)"
    unfolding Math_PI_double [symmetric] by simp
  have m0: "0 \<le> mul64 position Math_PI" unfolding mul64_def using a0 by (rule toDouble_nonneg)
  have "toDouble (position * Math_PI) \<le> of_int 884279719003555 * 2 powr of_int (- 48)"
    by (rule toDouble_le_double [OF a0 _ _ _ a1]) simp_all
  then have m1: "mul64 position Math_PI \<le> Math_PI"
    unfolding mul64_def Math_PI_double [symmetric] .
  have b0: "0 \<le> mul64 position Math_PI / 2" using m0 by simp
  have b1: "mul64 position Math_PI / 2 \<le> of_int 884279719003555 * 2 powr of_int (- 49)"
    unfolding half_Math_PI_double [symmetric] using m1 by simp
  have "div64 (mul64 position Math_PI) 2 \<le> of_int 884279719003555 * 2 powr of_int (- 49)"
    unfolding div64_def by (rule toDouble_le_double [OF b0 _ _ _ b1]) simp_all
  then have "div64 (mul64 position Math_PI) 2 \<le> Math_PI / 2"
    unfolding half_Math_PI_double [symmetric] .
  moreover have "0 \<le> div64 (mul64 position Math_PI) 2"
    unfolding div64_def using b0 by (rule toDouble_nonneg)
  ultimately show ?thesis unfolding position_def by simp
qed

lemma slowfade_range:
  assumes "- 1 \<le> x" and "x \<le> 1"
  shows "0 \<le> fst (crossfaderGains SlowFade x) \<and> fst (crossfaderGains SlowFade x) \<le> 1 \<and>
         0 \<le> snd (crossfaderGains SlowFade x) \<and> snd (crossfaderGains SlowFade x) \<le> 1"
proof -
  define t where "t = div64 (mul64 (div64 (add64 x 1) 2) Math_PI) 2"
  from slowfade_angle [OF assms] have t0: "0 \<le> t" and "t \<le> Math_PI / 2" unfolding t_def by simp_all
  with Math_PI_less_pi have t1: "t \<le> pi / 2" by simp
  have c: "0 \<le> cos t" "cos t \<le> 1" using t0 t1 by (simp_all add: cos_ge_zero)
  have s: "0 \<le> sin t" "sin t \<le> 1" using t0 t1 pi_gt_zero by (simp_all add: sin_ge_zero)
  from toDouble_unit [OF c] toDouble_unit [OF s] show ?thesis
    by (simp add: crossfaderGains_def Let_def t_def [symmetric] Math_cos_def Math_sin_def)
qed

text \<open>The exact values at \<open>Math.PI / 2\<close>, before rounding.\<close>

lemma sin_lower:
  fixes q :: real
  assumes q0: "0 < q" and q1: "q \<le> 1 / 2"
  shows "q * (1 - q\<^sup>2) \<le> sin q"
proof -
  have "3 < Math_PI" by (simp add: Math_PI_def)
  with Math_PI_less_pi have pi4: "1 / 2 < pi / 4" by simp
  have qpi: "q < pi / 4" using q1 pi4 by simp
  have qpi2: "q < pi / 2" using qpi q0 by linarith
  have cpos: "0 < cos q" using q0 qpi2 by (intro cos_gt_zero_pi) simp_all
  have spos: "0 \<le> sin q" using q0 qpi2 pi_gt_zero by (intro sin_ge_zero) simp_all
  have tpos: "0 < tan q" using q0 qpi2 by (rule tan_gt_zero)
  have "tan q < tan (pi / 4)" using q0 qpi pi_gt_zero by (intro tan_monotone) simp_all
  then have t1: "tan q \<le> 1" by (simp add: tan_45)
  have "arctan (tan q) \<le> tan q" using arctan_between [OF tpos t1, of 0] by simp
  moreover have "arctan (tan q) = q" using q0 qpi2 by (intro arctan_tan) simp_all
  ultimately have "q \<le> sin q / cos q" by (simp add: tan_def)
  then have a: "q * cos q \<le> sin q" using cpos by (simp add: field_simps)
  have "sin q \<le> q" using q0 by (intro sin_x_le_x) simp
  then have "(sin q)\<^sup>2 \<le> q\<^sup>2" using spos by (intro power_mono) simp_all
  then have "1 - q\<^sup>2 \<le> (cos q)\<^sup>2" by (simp add: cos_squared_eq)
  also have "(cos q)\<^sup>2 \<le> cos q"
    using cpos cos_le_one [of q] by (simp add: power2_eq_square mult_left_le)
  finally have "q * (1 - q\<^sup>2) \<le> q * cos q" using q0 by simp
  with a show ?thesis by simp
qed

lemma slowfade_right_end:
  "(4967757600021511 - 1 / 2) / 2 ^ 106 < cos (Math_PI / 2) \<and>
   cos (Math_PI / 2) < (4967757600021511 + 1 / 2) / 2 ^ 106 \<and>
   1 - 1 / 2 ^ 55 \<le> sin (Math_PI / 2) \<and> sin (Math_PI / 2) \<le> 1"
proof -
  define q where "q = pi / 2 - Math_PI / 2"
  define a :: real where "a = 122464679914735317 / 10 ^ 33 / 2"
  define b :: real where "b = 122464679914735318 / 10 ^ 33 / 2"
  have q0: "a \<le> q" unfolding q_def a_def using Math_PI_below_pi by simp
  have q1: "q \<le> b" unfolding q_def b_def using pi_le_Math_PI by simp
  have apos: "0 < a" unfolding a_def by simp
  have qpos: "0 < q" using q0 apos by simp
  have bh: "b \<le> 1 / 2" unfolding b_def by simp
  have qh: "q \<le> 1 / 2" using q1 bh by simp
  have c: "cos (Math_PI / 2) = sin q" unfolding q_def by (simp add: cos_sin_eq [of "Math_PI / 2"])
  have "sin q \<le> q" using qpos by (intro sin_x_le_x) simp
  with q1 have cle: "cos (Math_PI / 2) \<le> b" unfolding c by simp
  have "b < (4967757600021511 + 1 / 2) / 2 ^ 106" unfolding b_def by simp
  with cle have chi: "cos (Math_PI / 2) < (4967757600021511 + 1 / 2) / 2 ^ 106" by simp
  have "q\<^sup>2 \<le> b\<^sup>2" using qpos q1 by (intro power_mono) simp_all
  then have "1 - b\<^sup>2 \<le> 1 - q\<^sup>2" by simp
  moreover have "0 \<le> 1 - b\<^sup>2" unfolding b_def by (simp add: power2_eq_square)
  ultimately have "a * (1 - b\<^sup>2) \<le> q * (1 - q\<^sup>2)"
    using q0 qpos apos by (intro mult_mono) simp_all
  also have "\<dots> \<le> sin q" using qpos qh by (rule sin_lower)
  finally have "a * (1 - b\<^sup>2) \<le> cos (Math_PI / 2)" unfolding c .
  moreover have "(4967757600021511 - 1 / 2) / 2 ^ 106 < a * (1 - b\<^sup>2)"
    unfolding a_def b_def by (simp add: power2_eq_square)
  ultimately have clo: "(4967757600021511 - 1 / 2) / 2 ^ 106 < cos (Math_PI / 2)" by simp
  have cpos: "0 \<le> cos (Math_PI / 2)" using clo by (rule order_trans [rotated, OF less_imp_le]) simp
  have s0: "0 \<le> sin (Math_PI / 2)"
    using Math_PI_pos Math_PI_less_pi by (intro sin_ge_zero) simp_all
  have "(cos (Math_PI / 2))\<^sup>2 \<le> b\<^sup>2"
    using cpos cle by (intro power_mono) simp_all
  also have "\<dots> \<le> 1 / 2 ^ 55" unfolding b_def by (simp add: power2_eq_square)
  finally have c2: "(cos (Math_PI / 2))\<^sup>2 \<le> 1 / 2 ^ 55" .
  have "(sin (Math_PI / 2))\<^sup>2 \<le> sin (Math_PI / 2)"
    using s0 sin_le_one [of "Math_PI / 2"] by (simp add: power2_eq_square mult_left_le)
  moreover have "(sin (Math_PI / 2))\<^sup>2 = 1 - (cos (Math_PI / 2))\<^sup>2"
    by (simp add: sin_squared_eq)
  ultimately have "1 - (cos (Math_PI / 2))\<^sup>2 \<le> sin (Math_PI / 2)" by simp
  with c2 have "1 - 1 / 2 ^ 55 \<le> sin (Math_PI / 2)" by simp
  with clo chi show ?thesis by simp
qed

lemma crossfader_position_ends:
  "div64 (add64 (- 1) 1) 2 = 0 \<and> div64 (add64 1 1) 2 = 1"
  by (simp add: div64_def add64_def toDouble_numeral)

lemma crossfaderGains_ends:
  "crossfaderGains c (- 1) = (1, 0) \<and> crossfaderGains Linear 1 = (0, 1) \<and>
   crossfaderGains FastCut 1 = (0, 1) \<and>
   crossfaderGains SlowFade 1 = (toDouble (cos (Math_PI / 2)), toDouble (sin (Math_PI / 2)))"
proof -
  have pi1: "toDouble Math_PI = Math_PI"
    unfolding Math_PI_double by (rule toDouble_exact) simp_all
  have pi2: "toDouble (Math_PI / 2) = Math_PI / 2"
    unfolding half_Math_PI_double by (rule toDouble_exact) simp_all
  have p0: "div64 (add64 (- 1) 1) 2 = 0" and p1: "div64 (add64 1 1) 2 = 1"
    using crossfader_position_ends by blast+
  have l: "crossfaderGains c (- 1) = (1, 0)"
    unfolding crossfaderGains_def Let_def p0
    by (cases c)
      (simp_all add: sub64_def mul64_def div64_def Math_pow_def Math_cos_def Math_sin_def
        toDouble_numeral)
  have r1: "crossfaderGains Linear 1 = (0, 1)"
    unfolding crossfaderGains_def Let_def p1 by (simp add: sub64_def toDouble_numeral)
  have r2: "crossfaderGains FastCut 1 = (0, 1)"
    unfolding crossfaderGains_def Let_def p1
    by (simp add: sub64_def mul64_def div64_def Math_pow_def toDouble_numeral)
  have r3: "crossfaderGains SlowFade 1 = (toDouble (cos (Math_PI / 2)), toDouble (sin (Math_PI / 2)))"
    unfolding crossfaderGains_def Let_def p1
    by (simp add: mul64_def div64_def Math_cos_def Math_sin_def pi1 pi2)
  from l r1 r2 r3 show ?thesis by (intro conjI)
qed

lemma slowfade_rounded_end:
  "toDouble (cos (Math_PI / 2)) = 4967757600021511 / 2 ^ 106 \<and>
   toDouble (sin (Math_PI / 2)) = 1"
proof -
  define y where "y = cos (Math_PI / 2)"
  from slowfade_right_end
  have lo: "(4967757600021511 - 1 / 2) / 2 ^ 106 < y"
    and hi: "y < (4967757600021511 + 1 / 2) / 2 ^ 106"
    and s: "1 - 1 / 2 ^ 55 \<le> sin (Math_PI / 2)" "sin (Math_PI / 2) \<le> 1"
    unfolding y_def by simp_all
  have "(1 :: real) / 2 ^ 54 \<le> (4967757600021511 - 1 / 2) / 2 ^ 106" by simp
  with lo have l54: "1 / 2 ^ 54 \<le> y" by simp
  have "((4967757600021511 :: real) + 1 / 2) / 2 ^ 106 \<le> 1 / 2 ^ 53" by simp
  with hi have h53: "y < 1 / 2 ^ 53" by simp
  have ypos: "0 < y" using l54 by (rule less_le_trans [rotated]) simp
  have b: "2 powr of_int (- 54) \<le> \<bar>y\<bar>" "\<bar>y\<bar> < 2 powr of_int (- 54 + 1)"
    using l54 h53 ypos by (simp_all add: powr_neg_numeral)
  have z: "y / 2 powr of_int (- 54 - 52) = y * 2 ^ 106" by (simp add: powr_neg_numeral)
  have "of_int 4967757600021511 - 1 / 2 < y * 2 ^ 106" "y * 2 ^ 106 < of_int 4967757600021511 + 1 / 2"
    using lo hi by (simp_all add: field_simps)
  from roundTiesToEven_near [OF this] have r: "roundTiesToEven (y * 2 ^ 106) = 4967757600021511" .
  have "toDouble y = of_int (roundTiesToEven (y * 2 ^ 106)) * 2 powr of_int (- 54 - 52)"
    using toDouble_in_binade [OF b] unfolding z by simp
  then have "toDouble y = 4967757600021511 / 2 ^ 106"
    unfolding r by (simp add: powr_neg_numeral)
  with toDouble_near_one [OF s] show ?thesis unfolding y_def by simp
qed

text \<open>
  Claim C3, as stated, fails at one endpoint: under the constant-power law the gain of
  deck A at \<open>x = 1\<close> is \<open>Math.cos(Math.PI / 2)\<close>, which is not 0, since \<open>Math.PI\<close> is
  below \<open>\<pi>\<close>.
\<close>

theorem crossfaderGains_slow_fade_end_not_zero:
  "fst (crossfaderGains SlowFade 1) \<noteq> 0"
proof -
  have "crossfaderGains SlowFade 1 = (toDouble (cos (Math_PI / 2)), toDouble (sin (Math_PI / 2)))"
    using crossfaderGains_ends [of Linear] by blast
  then show ?thesis using slowfade_rounded_end by simp
qed

text \<open>
  Claim C3, amended. For every crossfader position \<open>x\<close> in [-1, 1] and each of the three
  laws both gains lie in [0, 1]. At \<open>x = -1\<close> the gains are exactly 1 and 0 under every
  law; at \<open>x = 1\<close> they are exactly 0 and 1 under the linear and the fast-cut law. Under
  the constant-power law the gain of deck B at \<open>x = 1\<close> is exactly 1, and the gain of
  deck A is the double \<open>4967757600021511 / 2^106\<close>, which prints as
  \<open>6.123233995736766e-17\<close>.
\<close>

theorem crossfaderGains_range_and_endpoints:
  assumes "- 1 \<le> x" and "x \<le> 1"
  shows "0 \<le> fst (crossfaderGains c x) \<and> fst (crossfaderGains c x) \<le> 1 \<and>
         0 \<le> snd (crossfaderGains c x) \<and> snd (crossfaderGains c x) \<le> 1 \<and>
         crossfaderGains c (- 1) = (1, 0) \<and>
         crossfaderGains Linear 1 = (0, 1) \<and>
         crossfaderGains FastCut 1 = (0, 1) \<and>
         crossfaderGains SlowFade 1 = (4967757600021511 / 2 ^ 106, 1)"
proof -
  have range: "0 \<le> fst (crossfaderGains c x) \<and> fst (crossfaderGains c x) \<le> 1 \<and>
         0 \<le> snd (crossfaderGains c x) \<and> snd (crossfaderGains c x) \<le> 1"
    using linear_range [OF assms] fastcut_range [OF assms] slowfade_range [OF assms]
    by (cases c) blast+
  have slow: "crossfaderGains SlowFade 1 = (toDouble (cos (Math_PI / 2)), toDouble (sin (Math_PI / 2)))"
    using crossfaderGains_ends [of c] by blast
  have right: "crossfaderGains SlowFade 1 = (4967757600021511 / 2 ^ 106, 1)"
    unfolding slow using slowfade_rounded_end by simp
  from range crossfaderGains_ends [of c] right show ?thesis by blast
qed

theorem crossfaderGains_range_and_endpoints_witness:
  "(- 1 :: real) \<le> 0 \<and> (0 :: real) \<le> 1 \<and>
   crossfaderGains Linear 0 = (1 / 2, 1 / 2) \<and>
   crossfaderGains FastCut 0 = (1 / 2, 1 / 2) \<and>
   0 \<le> fst (crossfaderGains SlowFade 0) \<and> fst (crossfaderGains SlowFade 0) \<le> 1 \<and>
   0 \<le> snd (crossfaderGains SlowFade 0) \<and> snd (crossfaderGains SlowFade 0) \<le> 1"
proof -
  have lo: "(- 1 :: real) \<le> 0" and hi: "(0 :: real) \<le> 1" by simp_all
  have h: "toDouble (1 / 2) = 1 / 2"
    using toDouble_exact [of 1 "- 1"] by simp
  have p: "div64 (add64 0 1) 2 = 1 / 2"
    by (simp add: div64_def add64_def toDouble_numeral h)
  have l: "crossfaderGains Linear 0 = (1 / 2, 1 / 2)"
    unfolding crossfaderGains_def Let_def p by (simp add: sub64_def h)
  have f: "crossfaderGains FastCut 0 = (1 / 2, 1 / 2)"
    unfolding crossfaderGains_def Let_def p
    by (simp add: sub64_def mul64_def div64_def Math_pow_def h toDouble_numeral)
  from crossfaderGains_range_and_endpoints [OF lo hi, of SlowFade]
  have "0 \<le> fst (crossfaderGains SlowFade 0) \<and> fst (crossfaderGains SlowFade 0) \<le> 1 \<and>
        0 \<le> snd (crossfaderGains SlowFade 0) \<and> snd (crossfaderGains SlowFade 0) \<le> 1"
    by blast
  with lo hi l f show ?thesis by blast
qed

end
